theory Spec2Isabelle
  imports Main "HOL-Library.Word" "HOL-Library.Multiset"
begin

unbundle bit_operations_syntax

section \<open>The Assertion Ledger of \<^verbatim>\<open>test_rv32i.c\<close>\<close>

text \<open>
  The three global counters of the test program:
  \<^verbatim>\<open>
  volatile uint32_t test_result = 0;
  volatile uint32_t test_passed = 0;
  volatile uint32_t test_failed = 0;
  \<close>
  Each is a 32-bit unsigned integer, so \<open>++\<close> wraps around at \<open>2 ^ 32\<close>. The earlier
  version of the program declares the same counters and the same macro.
\<close>

record ledger =
  test_result :: "32 word"
  test_passed :: "32 word"
  test_failed :: "32 word"

text \<open>
  The macro
  \<^verbatim>\<open>
  #define ASSERT(condition, test_name) \
      do { \
          if (condition) { test_passed++; } \
          else { test_failed++; test_result = 1; } \
      } while(0)
  \<close>
  The label \<open>test_name\<close> is not used by the expansion. Both branches fall through to
  the statement after the macro: there is no return, exit or trap.
\<close>

definition ASSERT :: "bool \<Rightarrow> ledger \<Rightarrow> ledger" where
  "ASSERT condition L =
     (if condition then L\<lparr>test_passed := test_passed L + 1\<rparr>
      else L\<lparr>test_failed := test_failed L + 1, test_result := 1\<rparr>)"

text \<open>A sequence of assertion records, in program order.\<close>

fun ASSERT_seq :: "bool list \<Rightarrow> ledger \<Rightarrow> ledger" where
  "ASSERT_seq [] L = L"
| "ASSERT_seq (c # cs) L = ASSERT_seq cs (ASSERT c L)"

text \<open>The first three statements of \<open>main\<close>: the counters are reset.\<close>

definition reset_counters :: "ledger \<Rightarrow> ledger" where
  "reset_counters L = L\<lparr>test_passed := 0, test_failed := 0, test_result := 0\<rparr>"


section \<open>The test groups of \<^verbatim>\<open>test_rv32i.c\<close> (the version with the RV32I coverage header)\<close>

text \<open>
  C values are modelled as the compiler for RV32 represents them: \<open>int32_t\<close> and
  \<open>uint32_t\<close> are \<open>32 word\<close>, with the signed comparisons \<open><s\<close> and \<open>\<le>s\<close> and the
  arithmetic shift \<open>signed_drop_bit\<close> where the operand is signed; \<open>int8_t\<close>/\<open>uint8_t\<close>
  are \<open>8 word\<close> and \<open>int16_t\<close>/\<open>uint16_t\<close> are \<open>16 word\<close>; a conversion to a wider
  type is \<open>scast\<close> from a signed source and \<open>ucast\<close> from an unsigned one. Local
  variables are rebound by \<open>let\<close> in program order, and the ledger is passed through
  every \<open>ASSERT\<close>. The variable \<open>sum\<close> of the program is written \<open>sum_v\<close>, as \<open>sum\<close> is a
  constant of HOL.
\<close>

subsection \<open>\<open>test_arithmetic\<close>\<close>

definition test_arithmetic :: "ledger \<Rightarrow> ledger" where
  "test_arithmetic L =
    (let a = (10 :: 32 word);
         b = (5 :: 32 word);
         result = a + b;
         L = ASSERT (result = 15) L;
         result = a - b;
         L = ASSERT (result = 5) L;
         result = a AND b;
         L = ASSERT (result = 0) L;
         result = a OR b;
         L = ASSERT (result = 15) L;
         result = a XOR b;
         L = ASSERT (result = 15) L;
         result = push_bit 2 a;
         L = ASSERT (result = 40) L;
         result = drop_bit 2 a;
         L = ASSERT (result = 2) L;
         shift_amt = (3 :: 32 word);
         result = drop_bit (unat shift_amt) (push_bit 3 a);
         L = ASSERT (result = 10) L;
         neg = (- 16 :: 32 word);
         result = signed_drop_bit 2 neg;
         L = ASSERT (result = - 4) L;
         result = (if a <s b then 1 else 0 :: 32 word);
         L = ASSERT (result = 0) L;
         result = (if b <s a then 1 else 0 :: 32 word);
         L = ASSERT (result = 1) L;
         ua = (0xFFFFFFFF :: 32 word);
         ub = (5 :: 32 word);
         result = (if ua < ub then 1 else 0 :: 32 word);
         L = ASSERT (result = 0) L
     in L)"

subsection \<open>\<open>test_memory\<close>\<close>

definition test_memory :: "ledger \<Rightarrow> ledger" where
  "test_memory L =
    (let array = [0, 1, 2, 3, 4, 5, 6, 7 :: 32 word];
         value = array ! 3;
         L = ASSERT (value = 3) L;
         array = array[0 := 42];
         L = ASSERT (array ! 0 = 42) L;
         byte_array = [- 1, 0, 127, - 128 :: 8 word];
         byte_val = (scast (byte_array ! 0) :: 32 word);
         L = ASSERT (byte_val = - 1) L;
         byte_val = (ucast (byte_array ! 0) :: 32 word);
         L = ASSERT (byte_val = 255) L;
         half_array = [- 1, 0, 32767, - 32768 :: 16 word];
         half_val = (scast (half_array ! 0) :: 32 word);
         L = ASSERT (half_val = - 1) L;
         half_val = (ucast (half_array ! 0) :: 32 word);
         L = ASSERT (half_val = 65535) L
     in L)"

subsection \<open>\<open>test_explicit_instructions\<close>\<close>

text \<open>
  The inline assembly statements name RV32I instructions; each is given the meaning the
  base ISA defines. Memory is the local buffer \<open>byte_buf\<close>, addressed by the byte offset
  from its start (base register plus immediate), little-endian; every access of the
  program lies within the buffer. The register-form shifts use the low five bits of the
  second operand.
\<close>

definition insn_lb :: "8 word list \<Rightarrow> nat \<Rightarrow> 32 word" where
  "insn_lb mem addr = scast (mem ! addr)"

definition insn_lh :: "8 word list \<Rightarrow> nat \<Rightarrow> 32 word" where
  "insn_lh mem addr = scast (word_cat (mem ! (addr + 1)) (mem ! addr) :: 16 word)"

definition insn_sb :: "32 word \<Rightarrow> 8 word list \<Rightarrow> nat \<Rightarrow> 8 word list" where
  "insn_sb rs2 mem addr = mem[addr := ucast rs2]"

definition insn_sh :: "32 word \<Rightarrow> 8 word list \<Rightarrow> nat \<Rightarrow> 8 word list" where
  "insn_sh rs2 mem addr = mem[addr := ucast rs2, addr + 1 := ucast (drop_bit 8 rs2)]"

definition insn_srl :: "32 word \<Rightarrow> 32 word \<Rightarrow> 32 word" where
  "insn_srl rs1 rs2 = drop_bit (unat (rs2 AND 31)) rs1"

definition insn_sll :: "32 word \<Rightarrow> 32 word \<Rightarrow> 32 word" where
  "insn_sll rs1 rs2 = push_bit (unat (rs2 AND 31)) rs1"

definition insn_sra :: "32 word \<Rightarrow> 32 word \<Rightarrow> 32 word" where
  "insn_sra rs1 rs2 = signed_drop_bit (unat (rs2 AND 31)) rs1"

definition insn_auipc :: "32 word \<Rightarrow> 32 word \<Rightarrow> 32 word" where
  "insn_auipc pc imm = pc + push_bit 12 imm"

definition test_explicit_instructions :: "ledger \<Rightarrow> ledger" where
  "test_explicit_instructions L =
    (let byte_buf = [0x12, 0x34, 0x56, 0x78, 0x9a, 0xbc, 0xde, 0xff :: 8 word];
         val = insn_lb byte_buf (4 + 0);
         L = ASSERT (val = scast (0x9a :: 8 word)) L;
         byte_buf = byte_buf[0 := 0xff];
         byte_buf = byte_buf[1 := 0xff];
         val = insn_lh byte_buf (0 + 0);
         L = ASSERT (val = - 1) L;
         byte_buf = insn_sb 0xAB byte_buf (0 + 2);
         L = ASSERT (byte_buf ! 2 = 0xAB) L;
         byte_buf = insn_sh 0x1234 byte_buf (0 + 4);
         L = ASSERT (byte_buf ! 4 = 0x34 \<and> byte_buf ! 5 = 0x12) L;
         shift_result = insn_srl 0x80000000 4;
         L = ASSERT (shift_result = 0x08000000) L;
         shift_result = insn_sll 1 5;
         L = ASSERT (shift_result = 32) L;
         shift_result = insn_sra (- 64) 3;
         L = ASSERT (shift_result = - 8) L
     in L)"

subsection \<open>\<open>test_branches\<close>\<close>

definition test_branches :: "ledger \<Rightarrow> ledger" where
  "test_branches L =
    (let a = (10 :: 32 word);
         b = (5 :: 32 word);
         count = (0 :: 32 word);
         count = (if a = a then count + 1 else count);
         L = ASSERT (count = 1) L;
         count = (if a \<noteq> b then count + 1 else count);
         L = ASSERT (count = 2) L;
         count = (if b <s a then count + 1 else count);
         L = ASSERT (count = 3) L;
         count = (if b \<le>s a then count + 1 else count);
         L = ASSERT (count = 4) L;
         ua = (5 :: 32 word);
         ub = (10 :: 32 word);
         count = (if ua < ub then count + 1 else count);
         L = ASSERT (count = 5) L;
         count = (if ua \<le> ub then count + 1 else count);
         L = ASSERT (count = 6) L
     in L)"

text \<open>
  The variant of Scenario D: the same group with its last assertion inverted, expecting
  \<open>count == 99\<close> where the count is 6. Nothing else is changed.
\<close>

definition test_branches_inverted :: "ledger \<Rightarrow> ledger" where
  "test_branches_inverted L =
    (let a = (10 :: 32 word);
         b = (5 :: 32 word);
         count = (0 :: 32 word);
         count = (if a = a then count + 1 else count);
         L = ASSERT (count = 1) L;
         count = (if a \<noteq> b then count + 1 else count);
         L = ASSERT (count = 2) L;
         count = (if b <s a then count + 1 else count);
         L = ASSERT (count = 3) L;
         count = (if b \<le>s a then count + 1 else count);
         L = ASSERT (count = 4) L;
         ua = (5 :: 32 word);
         ub = (10 :: 32 word);
         count = (if ua < ub then count + 1 else count);
         L = ASSERT (count = 5) L;
         count = (if ua \<le> ub then count + 1 else count);
         L = ASSERT (count = 99) L
     in L)"

text \<open>
  The same group with the six expected counts as parameters: \<open>test_branches\<close> is the
  instance \<open>1 2 3 4 5 6\<close>, the variant of Scenario D the instance \<open>1 2 3 4 5 99\<close>, and
  any other instance is the group with some of its assertions inverted.
\<close>

definition test_branches_expecting ::
  "32 word \<Rightarrow> 32 word \<Rightarrow> 32 word \<Rightarrow> 32 word \<Rightarrow> 32 word \<Rightarrow> 32 word \<Rightarrow> ledger \<Rightarrow> ledger" where
  "test_branches_expecting e1 e2 e3 e4 e5 e6 L =
    (let a = (10 :: 32 word);
         b = (5 :: 32 word);
         count = (0 :: 32 word);
         count = (if a = a then count + 1 else count);
         L = ASSERT (count = e1) L;
         count = (if a \<noteq> b then count + 1 else count);
         L = ASSERT (count = e2) L;
         count = (if b <s a then count + 1 else count);
         L = ASSERT (count = e3) L;
         count = (if b \<le>s a then count + 1 else count);
         L = ASSERT (count = e4) L;
         ua = (5 :: 32 word);
         ub = (10 :: 32 word);
         count = (if ua < ub then count + 1 else count);
         L = ASSERT (count = e5) L;
         count = (if ua \<le> ub then count + 1 else count);
         L = ASSERT (count = e6) L
     in L)"

subsection \<open>\<open>test_loops\<close>\<close>

text \<open>
  \<^verbatim>\<open>for (i = 0; i < 10; i++) { sum += i; }\<close> from the current \<open>i\<close> and \<open>sum\<close>; the
  result is the pair of both variables after the loop.
\<close>

function for_loop :: "32 word \<Rightarrow> 32 word \<Rightarrow> 32 word \<times> 32 word" where
  "for_loop i sum_v = (if i <s 10 then for_loop (i + 1) (sum_v + i) else (i, sum_v))"
  by pat_completeness auto
termination
proof (relation "measure (\<lambda>(i, sum_v). nat (10 - sint i))")
  show "wf (measure (\<lambda>(i :: 32 word, sum_v :: 32 word). nat (10 - sint i)))"
    by simp
next
  fix i sum_v :: "32 word"
  assume "i <s 10"
  then have lt: "sint i < 10"
    by (simp add: word_sless_alt)
  moreover have "- (2 ^ 31) \<le> sint i"
    using sint_ge [of i] by simp
  ultimately have "signed_take_bit 31 (sint i + 1) = sint i + 1"
    by (intro signed_take_bit_int_eq_self) simp_all
  then have "sint (i + 1) = sint i + 1"
    by (simp add: sint_word_add)
  with lt show "((i + 1, sum_v + i), (i, sum_v)) \<in> measure (\<lambda>(i, sum_v). nat (10 - sint i))"
    by simp
qed

declare for_loop.simps [simp del]

text \<open>\<^verbatim>\<open>while (i < 10) { sum += i; i++; }\<close>\<close>

function while_loop :: "32 word \<Rightarrow> 32 word \<Rightarrow> 32 word \<times> 32 word" where
  "while_loop i sum_v =
     (if i <s 10 then (let sum_v = sum_v + i; i = i + 1 in while_loop i sum_v)
      else (i, sum_v))"
  by pat_completeness auto
termination
proof (relation "measure (\<lambda>(i, sum_v). nat (10 - sint i))")
  show "wf (measure (\<lambda>(i :: 32 word, sum_v :: 32 word). nat (10 - sint i)))"
    by simp
next
  fix i sum_v sum_v' i' :: "32 word"
  assume "i <s 10" and i': "i' = i + 1"
  then have lt: "sint i < 10"
    by (simp add: word_sless_alt)
  moreover have "- (2 ^ 31) \<le> sint i"
    using sint_ge [of i] by simp
  ultimately have "signed_take_bit 31 (sint i + 1) = sint i + 1"
    by (intro signed_take_bit_int_eq_self) simp_all
  then have "sint (i + 1) = sint i + 1"
    by (simp add: sint_word_add)
  with lt i' show "((i', sum_v'), (i, sum_v)) \<in> measure (\<lambda>(i, sum_v). nat (10 - sint i))"
    by simp
qed

declare while_loop.simps [simp del]

definition test_loops :: "ledger \<Rightarrow> ledger" where
  "test_loops L =
    (let sum_v = (0 :: 32 word);
         (i, sum_v) = for_loop 0 sum_v;
         L = ASSERT (sum_v = 45) L;
         sum_v = 0;
         i = 0;
         (i, sum_v) = while_loop i sum_v;
         L = ASSERT (sum_v = 45) L
     in L)"

subsection \<open>\<open>test_functions\<close>\<close>

definition add_function :: "32 word \<Rightarrow> 32 word \<Rightarrow> 32 word" where
  "add_function a b = a + b"

function recursive_sum :: "32 word \<Rightarrow> 32 word" where
  "recursive_sum n =
     (if n \<le>s 0 then 0
      else (let rest = recursive_sum (n - 1) in n + rest))"
  by pat_completeness auto
termination
proof (relation "measure (\<lambda>n. nat (sint n))")
  show "wf (measure (\<lambda>n :: 32 word. nat (sint n)))"
    by simp
next
  fix n :: "32 word"
  assume "\<not> n \<le>s 0"
  then have pos: "0 < sint n"
    by (simp add: word_sle_eq)
  moreover have "sint n < 2 ^ 31"
    using sint_lt [of n] by simp
  ultimately have "signed_take_bit 31 (sint n - 1) = sint n - 1"
    by (intro signed_take_bit_int_eq_self) simp_all
  then have "sint (n - 1) = sint n - 1"
    by (simp add: sint_word_diff)
  with pos show "(n - 1, n) \<in> measure (\<lambda>n. nat (sint n))"
    by simp
qed

declare recursive_sum.simps [simp del]

definition test_functions :: "ledger \<Rightarrow> ledger" where
  "test_functions L =
    (let result = add_function 7 8;
         L = ASSERT (result = 15) L;
         result = recursive_sum 10;
         L = ASSERT (result = 55) L
     in L)"

subsection \<open>\<open>test_immediates\<close>\<close>

definition test_immediates :: "ledger \<Rightarrow> ledger" where
  "test_immediates L =
    (let a = (100 :: 32 word);
         result = a + 50;
         L = ASSERT (result = 150) L;
         result = a AND 0x0F;
         L = ASSERT (result = 4) L;
         result = a OR 0xF0;
         L = ASSERT (result = 0xF4) L;
         result = a XOR 0xFF;
         L = ASSERT (result = 0x9B) L;
         result = (if a <s 200 then 1 else 0 :: 32 word);
         L = ASSERT (result = 1) L;
         result = (if a <s 50 then 1 else 0 :: 32 word);
         L = ASSERT (result = 0) L;
         ua = (100 :: 32 word);
         result = (if ua < 200 then 1 else 0 :: 32 word);
         L = ASSERT (result = 1) L
     in L)"

subsection \<open>\<open>test_upper_immediates\<close>\<close>

text \<open>
  The two \<open>auipc\<close> instructions of the asm statement are consecutive four-byte
  instructions; \<open>pc\<close> is the address at which the first one is linked.
\<close>

definition test_upper_immediates :: "32 word \<Rightarrow> ledger \<Rightarrow> ledger" where
  "test_upper_immediates pc L =
    (let value = (0x12345000 :: 32 word);
         L = ASSERT (drop_bit 12 value = 0x12345) L;
         value = (0xABCD0000 :: 32 word);
         L = ASSERT (drop_bit 16 value = 0xABCD) L;
         pc1 = insn_auipc pc 0;
         pc2 = insn_auipc (pc + 4) 0;
         L = ASSERT (pc2 - pc1 = 4) L
     in L)"

subsection \<open>\<open>test_jumps\<close>\<close>

text \<open>
  \<open>jump_callback_flag\<close> is a file-scope variable that only \<open>jump_target\<close> writes and only
  \<open>test_jumps\<close> reads, and \<open>test_jumps\<close> stores 0 to it before each call; it is passed
  through these two functions. The call through the pointer \<open>fn\<close> calls \<open>jump_target\<close>.
\<close>

definition jump_target :: "32 word \<Rightarrow> 32 word" where
  "jump_target jump_callback_flag = 1"

definition test_jumps :: "ledger \<Rightarrow> ledger" where
  "test_jumps L =
    (let jump_callback_flag = (0 :: 32 word);
         jump_callback_flag = jump_target jump_callback_flag;
         L = ASSERT (jump_callback_flag = 1) L;
         jump_callback_flag = 0;
         fn = jump_target;
         jump_callback_flag = fn jump_callback_flag;
         L = ASSERT (jump_callback_flag = 1) L
     in L)"

subsection \<open>\<open>main\<close>\<close>

text \<open>The returned pair is the return value of \<open>main\<close> and the ledger it leaves.\<close>

definition main :: "32 word \<Rightarrow> ledger \<Rightarrow> 32 word \<times> ledger" where
  "main pc L =
    (let L = L\<lparr>test_passed := 0\<rparr>;
         L = L\<lparr>test_failed := 0\<rparr>;
         L = L\<lparr>test_result := 0\<rparr>;
         L = test_arithmetic L;
         L = test_memory L;
         L = test_explicit_instructions L;
         L = test_branches L;
         L = test_loops L;
         L = test_functions L;
         L = test_immediates L;
         L = test_upper_immediates pc L;
         L = test_jumps L
     in (test_result L, L))"

text \<open>Scenario D: \<open>main\<close> with \<open>test_branches\<close> replaced by its inverted variant.\<close>

definition main_inverted :: "32 word \<Rightarrow> ledger \<Rightarrow> 32 word \<times> ledger" where
  "main_inverted pc L =
    (let L = L\<lparr>test_passed := 0\<rparr>;
         L = L\<lparr>test_failed := 0\<rparr>;
         L = L\<lparr>test_result := 0\<rparr>;
         L = test_arithmetic L;
         L = test_memory L;
         L = test_explicit_instructions L;
         L = test_branches_inverted L;
         L = test_loops L;
         L = test_functions L;
         L = test_immediates L;
         L = test_upper_immediates pc L;
         L = test_jumps L
     in (test_result L, L))"

text \<open>\<open>main\<close> with \<open>test_branches\<close> replaced by \<open>test_branches_expecting\<close>.\<close>

definition main_expecting ::
  "32 word \<Rightarrow> 32 word \<Rightarrow> 32 word \<Rightarrow> 32 word \<Rightarrow> 32 word \<Rightarrow> 32 word \<Rightarrow> 32 word \<Rightarrow> ledger
     \<Rightarrow> 32 word \<times> ledger" where
  "main_expecting e1 e2 e3 e4 e5 e6 pc L =
    (let L = L\<lparr>test_passed := 0\<rparr>;
         L = L\<lparr>test_failed := 0\<rparr>;
         L = L\<lparr>test_result := 0\<rparr>;
         L = test_arithmetic L;
         L = test_memory L;
         L = test_explicit_instructions L;
         L = test_branches_expecting e1 e2 e3 e4 e5 e6 L;
         L = test_loops L;
         L = test_functions L;
         L = test_immediates L;
         L = test_upper_immediates pc L;
         L = test_jumps L
     in (test_result L, L))"

text \<open>The values the static initialisers give the three counters at program start.\<close>

definition initial_ledger :: ledger where
  "initial_ledger = \<lparr>test_result = 0, test_passed = 0, test_failed = 0\<rparr>"

text \<open>
  The number of \<open>ASSERT\<close> statements in the body of each group, in the order in which
  \<open>main\<close> calls the groups.
\<close>

definition assertion_sites :: "(string \<times> nat) list" where
  "assertion_sites =
    [(''test_arithmetic'', 12), (''test_memory'', 6), (''test_explicit_instructions'', 7),
     (''test_branches'', 6), (''test_loops'', 2), (''test_functions'', 2),
     (''test_immediates'', 7), (''test_upper_immediates'', 3), (''test_jumps'', 2)]"

section \<open>The coverage check of the \<^verbatim>\<open>Makefile\<close> (target \<open>verify-instructions\<close>)\<close>

subsection \<open>\<^verbatim>\<open>grep -qE "\b$insn\b" $(DUMP)\<close>\<close>

text \<open>
  The disassembly listing is the list of its lines. \<open>grep\<close> looks for the pattern in
  each line on its own, and with \<open>-q\<close> its exit status alone says whether some line
  matched. The mnemonics of the recipe consist of letters only, so the pattern between
  the two \<^verbatim>\<open>\b\<close> is matched literally (a word with an operator of regular
  expressions in it is not modelled).

  A word constituent is a letter, a digit or the underscore.
\<close>

definition is_word_char :: "char \<Rightarrow> bool" where
  "is_word_char c =
     (c \<in> set (''abcdefghijklmnopqrstuvwxyz'' @ ''ABCDEFGHIJKLMNOPQRSTUVWXYZ''
               @ ''0123456789'' @ ''_''))"

text \<open>
  \<^verbatim>\<open>\b\<close> matches the empty string at the edge of a word: at a position of a line, with
  the text \<open>before\<close> it and the text \<open>after\<close> it, exactly one of the character before
  and the character after is a word constituent (the start and the end of the line are
  not).
\<close>

definition word_edge :: "string \<Rightarrow> string \<Rightarrow> bool" where
  "word_edge before after =
     ((before \<noteq> [] \<and> is_word_char (last before)) \<noteq> (after \<noteq> [] \<and> is_word_char (hd after)))"

text \<open>The pattern matches at the position that splits a line into \<open>before\<close> and \<open>rest\<close>.\<close>

definition matches_at :: "string \<Rightarrow> string \<Rightarrow> string \<Rightarrow> bool" where
  "matches_at insn before rest =
     (word_edge before rest
      \<and> take (length insn) rest = insn
      \<and> word_edge (before @ insn) (drop (length insn) rest))"

text \<open>The pattern matches at some position of \<open>before @ rest\<close> at or after \<open>before\<close>.\<close>

fun line_search :: "string \<Rightarrow> string \<Rightarrow> string \<Rightarrow> bool" where
  "line_search insn before [] = matches_at insn before []"
| "line_search insn before (c # rest) =
     (matches_at insn before (c # rest) \<or> line_search insn (before @ [c]) rest)"

definition grep_line :: "string \<Rightarrow> string \<Rightarrow> bool" where
  "grep_line insn line = line_search insn [] line"

text \<open>True when \<open>grep\<close> exits with status 0: some line of the listing matches.\<close>

definition grep_qE :: "string \<Rightarrow> string list \<Rightarrow> bool" where
  "grep_qE insn dump = list_ex (grep_line insn) dump"

subsection \<open>The recipe\<close>

text \<open>
  \<^verbatim>\<open>
  @echo "Checking RV32I instruction coverage..."
  @missing=0; \
  for insn in lb lh ... bgeu; do \
    if ! grep -qE "\b$$insn\b" $(DUMP); then \
      echo "  MISSING: $$insn"; missing=$$((missing+1)); \
    fi; \
  done; \
  if [ $$missing -eq 0 ]; then \
    echo "  All RV32I instructions present in dump."; \
  else \
    echo "  $$missing instruction(s) not found."; exit 1; \
  fi
  \<close>
  The state of the loop is the list of lines printed so far and the shell variable
  \<open>missing\<close>, a natural number (it counts words of the list, far below the range of
  shell arithmetic). The result of the recipe is the list of lines it prints and the
  exit status of its shell, which \<open>make\<close> reports as its own failure when it is not 0.
\<close>

text \<open>The decimal numeral the shell substitutes for \<open>$$missing\<close>.\<close>

fun show_nat :: "nat \<Rightarrow> string" where
  "show_nat n =
     (if n < 10 then [''0123456789'' ! n]
      else show_nat (n div 10) @ [''0123456789'' ! (n mod 10)])"

declare show_nat.simps [simp del]

fun for_insn :: "string list \<Rightarrow> string list \<Rightarrow> string list \<times> nat \<Rightarrow> string list \<times> nat" where
  "for_insn [] dump (out, missing) = (out, missing)"
| "for_insn (insn # insns) dump (out, missing) =
     (if \<not> grep_qE insn dump
      then for_insn insns dump (out @ [''  MISSING: '' @ insn], missing + 1)
      else for_insn insns dump (out, missing))"

text \<open>The recipe, with the word list of its \<open>for\<close> loop as a parameter.\<close>

definition verify_instructions_for :: "string list \<Rightarrow> string list \<Rightarrow> string list \<times> nat" where
  "verify_instructions_for required dump =
    (let out = [''Checking RV32I instruction coverage...''];
         (out, missing) = for_insn required dump (out, 0)
     in if missing = 0 then (out @ [''  All RV32I instructions present in dump.''], 0)
        else (out @ [''  '' @ show_nat missing @ '' instruction(s) not found.''], 1))"

text \<open>The word list of the \<open>for\<close> loop, as the \<^verbatim>\<open>Makefile\<close> has it.\<close>

definition rv32i_insns :: "string list" where
  "rv32i_insns =
    [''lb'', ''lh'', ''lw'', ''lbu'', ''lhu'', ''sb'', ''sh'', ''sw'', ''add'', ''addi'',
     ''sub'', ''and'', ''andi'', ''or'', ''ori'', ''xor'', ''xori'',
     ''sll'', ''slli'', ''srl'', ''srli'', ''sra'', ''srai'', ''slt'', ''slti'', ''sltu'',
     ''sltiu'', ''lui'', ''auipc'', ''jal'', ''jalr'',
     ''beq'', ''bne'', ''blt'', ''bge'', ''bltu'', ''bgeu'']"

definition verify_instructions :: "string list \<Rightarrow> string list \<times> nat" where
  "verify_instructions dump = verify_instructions_for rv32i_insns dump"

subsection \<open>The Coverage Verifier of the specification\<close>

text \<open>
  In the words of the specification: a mnemonic is present if it occurs as a standalone
  token on some line, that is, delimited on each side by the end of the line or by a
  character that is not a word constituent; the mnemonics not found are accumulated
  into \<open>missing\<close>, in the order of \<open>required\<close>.
\<close>

definition standalone_token_on :: "string \<Rightarrow> string \<Rightarrow> bool" where
  "standalone_token_on m line =
     (\<exists>before after. line = before @ m @ after
        \<and> (before = [] \<or> \<not> is_word_char (last before))
        \<and> (after = [] \<or> \<not> is_word_char (hd after)))"

definition missing_mnemonics :: "string list \<Rightarrow> string list \<Rightarrow> string list" where
  "missing_mnemonics required dump = filter (\<lambda>insn. \<not> grep_qE insn dump) required"

section \<open>Build configuration of the \<^verbatim>\<open>Makefile\<close>\<close>

subsection \<open>\<open>TOOLCHAIN_PREFIX\<close>\<close>

text \<open>
  What the shell script of the assignment can observe of the host: whether
  \<^verbatim>\<open>command -v NAME\<close> succeeds (the command is found on the search path), and whether
  \<^verbatim>\<open>[ -f PATH ]\<close> holds (a regular file exists at the path).
\<close>

record host =
  command_v :: "string \<Rightarrow> bool"
  test_f :: "string \<Rightarrow> bool"

text \<open>
  The script in \<^verbatim>\<open>$(shell ...)\<close>: an \<open>if\<close>/\<open>elif\<close> chain, each branch echoing a prefix.
\<close>

definition detect_toolchain :: "host \<Rightarrow> string" where
  "detect_toolchain h =
     (if command_v h ''riscv64-unknown-elf-gcc'' then ''riscv64-unknown-elf-''
      else if command_v h ''riscv32-unknown-elf-gcc'' then ''riscv32-unknown-elf-''
      else if command_v h ''riscv64-linux-gnu-gcc'' then ''riscv64-linux-gnu-''
      else if command_v h ''riscv32-linux-gnu-gcc'' then ''riscv32-linux-gnu-''
      else if test_f h ''/opt/homebrew/bin/riscv64-unknown-elf-gcc'' then ''riscv64-unknown-elf-''
      else if test_f h ''/usr/local/bin/riscv64-unknown-elf-gcc'' then ''riscv64-unknown-elf-''
      else ''riscv64-unknown-elf-'')"

text \<open>
  \<^verbatim>\<open>TOOLCHAIN_PREFIX ?= $(shell ...)\<close>: the assignment takes effect only when the caller
  has not defined the variable (on the command line or in the environment); \<open>given\<close> is
  the caller's value, if any.
\<close>

definition TOOLCHAIN_PREFIX :: "string option \<Rightarrow> host \<Rightarrow> string" where
  "TOOLCHAIN_PREFIX given h =
     (case given of Some prefix \<Rightarrow> prefix | None \<Rightarrow> detect_toolchain h)"

text \<open>
  The policy in the words of the specification: the explicit override; then the four
  candidate prefixes in order, by their compiler on the search path; then the fixed
  installation directories, checked for the same candidate binaries; then the fixed
  fallback. For step (3) the directories are taken in order and, within a directory,
  the candidates in order.
\<close>

definition candidate_prefixes :: "string list" where
  "candidate_prefixes =
     [''riscv64-unknown-elf-'', ''riscv32-unknown-elf-'', ''riscv64-linux-gnu-'',
      ''riscv32-linux-gnu-'']"

definition install_dirs :: "string list" where
  "install_dirs = [''/opt/homebrew/bin'', ''/usr/local/bin'']"

definition claimed_toolchain_policy :: "string option \<Rightarrow> host \<Rightarrow> string" where
  "claimed_toolchain_policy given h =
     (case given of
        Some prefix \<Rightarrow> prefix
      | None \<Rightarrow>
         (case find (\<lambda>prefix. command_v h (prefix @ ''gcc'')) candidate_prefixes of
            Some prefix \<Rightarrow> prefix
          | None \<Rightarrow>
             (case find (\<lambda>(dir, prefix). test_f h (dir @ ''/'' @ prefix @ ''gcc''))
                     (List.product install_dirs candidate_prefixes) of
                Some (dir, prefix) \<Rightarrow> prefix
              | None \<Rightarrow> ''riscv64-unknown-elf-'')))"

text \<open>
  A host with no RISC-V compiler on the search path and \<open>riscv32-unknown-elf-gcc\<close>
  installed in \<^verbatim>\<open>/opt/homebrew/bin\<close>; and one with \<open>riscv32-unknown-elf-gcc\<close> and
  \<open>riscv64-linux-gnu-gcc\<close> on the search path.
\<close>

definition homebrew_rv32_host :: host where
  "homebrew_rv32_host =
     \<lparr>command_v = (\<lambda>name. False),
      test_f = (\<lambda>path. path = ''/opt/homebrew/bin/riscv32-unknown-elf-gcc'')\<rparr>"

definition path_rv32_host :: host where
  "path_rv32_host =
     \<lparr>command_v = (\<lambda>name. name = ''riscv32-unknown-elf-gcc'' \<or> name = ''riscv64-linux-gnu-gcc''),
      test_f = (\<lambda>path. False)\<rparr>"

subsection \<open>\<open>FULL_ARCH\<close>\<close>

text \<open>
  \<^verbatim>\<open>
  ifneq ($(ISA_EXTENSIONS),)
      FULL_ARCH = $(ARCH)$(ISA_EXTENSIONS)
  else
      FULL_ARCH = $(ARCH)
  endif
  \<close>
  The two variables are strings; each character of \<open>ISA_EXTENSIONS\<close> names an
  extension.
\<close>

definition FULL_ARCH :: "string \<Rightarrow> string \<Rightarrow> string" where
  "FULL_ARCH ARCH ISA_EXTENSIONS =
     (if ISA_EXTENSIONS \<noteq> [] then ARCH @ ISA_EXTENSIONS else ARCH)"

section \<open>Properties of the test program\<close>

subsection \<open>Sequences of assertion records\<close>

lemma ASSERT_seq_append: "ASSERT_seq (cs @ ds) L = ASSERT_seq ds (ASSERT_seq cs L)"
  by (induction cs arbitrary: L) simp_all

lemma test_failed_ASSERT_seq:
  "test_failed (ASSERT_seq cs L) = test_failed L + of_nat (length (filter Not cs))"
  by (induction cs arbitrary: L) (simp_all add: ASSERT_def)

lemma test_passed_ASSERT_seq:
  "test_passed (ASSERT_seq cs L) = test_passed L + of_nat (length (filter id cs))"
  by (induction cs arbitrary: L) (simp_all add: ASSERT_def)

lemma test_result_ASSERT_seq:
  "test_result (ASSERT_seq cs L) = (if filter Not cs = [] then test_result L else 1)"
  by (induction cs arbitrary: L) (simp_all add: ASSERT_def)

subsection \<open>What each group does to the ledger\<close>

lemma ASSERT_True: "ASSERT True L = L\<lparr>test_passed := test_passed L + 1\<rparr>"
  by (simp add: ASSERT_def)

lemma ASSERT_False:
  "ASSERT False L = L\<lparr>test_failed := test_failed L + 1, test_result := 1\<rparr>"
  by (simp add: ASSERT_def)

lemmas ASSERT_decided = ASSERT_True ASSERT_False

lemma word_evaluations:
  "(ucast (- 1 :: 8 word) :: 32 word) = 255"
  "(ucast (- 1 :: 16 word) :: 32 word) = 65535"
  "(scast (word_cat (255 :: 8 word) (255 :: 8 word) :: 16 word) :: 32 word) = - 1"
  by code_simp+

lemma test_arithmetic_passes:
  "test_arithmetic L = L\<lparr>test_passed := test_passed L + 12\<rparr>"
  by (simp add: test_arithmetic_def ASSERT_decided Let_def)

lemma test_memory_passes:
  "test_memory L = L\<lparr>test_passed := test_passed L + 6\<rparr>"
  by (simp add: test_memory_def ASSERT_decided Let_def word_evaluations)

lemma test_explicit_instructions_passes:
  "test_explicit_instructions L = L\<lparr>test_passed := test_passed L + 7\<rparr>"
  by (simp add: test_explicit_instructions_def ASSERT_decided Let_def insn_lb_def insn_lh_def
      insn_sb_def insn_sh_def insn_srl_def insn_sll_def insn_sra_def word_evaluations)

lemma test_branches_passes:
  "test_branches L = L\<lparr>test_passed := test_passed L + 6\<rparr>"
  by (simp add: test_branches_def ASSERT_decided Let_def word_sle_eq)

lemma test_branches_inverted_fails_once:
  "test_branches_inverted L =
     L\<lparr>test_passed := test_passed L + 5, test_failed := test_failed L + 1, test_result := 1\<rparr>"
  by (simp add: test_branches_inverted_def ASSERT_decided Let_def word_sle_eq)

lemma for_loop_0_0: "for_loop 0 0 = (10, 45)"
  by (simp add: for_loop.simps word_sless_alt)

lemma while_loop_0_0: "while_loop 0 0 = (10, 45)"
  by (simp add: while_loop.simps word_sless_alt Let_def)

lemma test_loops_passes:
  "test_loops L = L\<lparr>test_passed := test_passed L + 2\<rparr>"
  by (simp add: test_loops_def ASSERT_decided Let_def for_loop_0_0 while_loop_0_0)

lemma recursive_sum_10: "recursive_sum 10 = 55"
  by (simp add: recursive_sum.simps word_sle_eq)

lemma test_functions_passes:
  "test_functions L = L\<lparr>test_passed := test_passed L + 2\<rparr>"
  by (simp add: test_functions_def ASSERT_decided Let_def add_function_def recursive_sum_10)

lemma test_immediates_passes:
  "test_immediates L = L\<lparr>test_passed := test_passed L + 7\<rparr>"
  by (simp add: test_immediates_def ASSERT_decided Let_def)

lemma test_upper_immediates_passes:
  "test_upper_immediates pc L = L\<lparr>test_passed := test_passed L + 3\<rparr>"
  by (simp add: test_upper_immediates_def ASSERT_decided Let_def insn_auipc_def)

lemma test_jumps_passes:
  "test_jumps L = L\<lparr>test_passed := test_passed L + 2\<rparr>"
  by (simp add: test_jumps_def ASSERT_decided Let_def jump_target_def)

lemmas group_effects =
  test_arithmetic_passes test_memory_passes test_explicit_instructions_passes
  test_branches_passes test_loops_passes test_functions_passes test_immediates_passes
  test_upper_immediates_passes test_jumps_passes

lemma main_ledger:
  "main pc L = (0, L\<lparr>test_passed := 47, test_failed := 0, test_result := 0\<rparr>)"
  by (simp add: main_def Let_def group_effects)

lemma main_inverted_ledger:
  "main_inverted pc L = (1, L\<lparr>test_passed := 46, test_failed := 1, test_result := 1\<rparr>)"
  by (simp add: main_inverted_def Let_def group_effects test_branches_inverted_fails_once)

lemma main_resets: "snd (main pc L) = snd (main pc (reset_counters L))"
  by (simp add: main_ledger reset_counters_def)

text \<open>
  The runs as sequences of records: \<open>main\<close> records 47 passing assertions; with the
  inverted assertion it records 30 passing ones, the failing one, and 16 passing ones.
\<close>

lemma ASSERT_seq_replicate_True:
  "ASSERT_seq (replicate n True) L = L\<lparr>test_passed := test_passed L + of_nat n\<rparr>"
  by (induction n arbitrary: L) (simp_all add: ASSERT_True add.assoc)

lemma main_records:
  "snd (main pc L) = ASSERT_seq (replicate 47 True) (reset_counters L)"
  by (simp add: main_ledger ASSERT_seq_replicate_True reset_counters_def)

lemma main_inverted_records:
  "snd (main_inverted pc L) =
     ASSERT_seq (replicate 30 True @ False # replicate 16 True) (reset_counters L)"
  by (simp add: main_inverted_ledger ASSERT_seq_append ASSERT_seq_replicate_True ASSERT_False
      reset_counters_def)

text \<open>
  The groups as sequences of records, from any ledger; \<open>test_branches\<close> with any expected
  counts; and \<open>main\<close> with any expected counts in \<open>test_branches\<close>.
\<close>

lemma test_branches_expecting_records:
  "test_branches_expecting e1 e2 e3 e4 e5 e6 L =
     ASSERT_seq [1 = e1, 2 = e2, 3 = e3, 4 = e4, 5 = e5, 6 = e6] L"
  by (simp add: test_branches_expecting_def Let_def word_sle_eq)

lemma test_branches_as_expecting: "test_branches = test_branches_expecting 1 2 3 4 5 6"
  by (rule ext) (simp add: test_branches_def test_branches_expecting_def)

lemma test_branches_inverted_as_expecting:
  "test_branches_inverted = test_branches_expecting 1 2 3 4 5 99"
  by (rule ext) (simp add: test_branches_inverted_def test_branches_expecting_def)

lemma main_as_expecting: "main = main_expecting 1 2 3 4 5 6"
  by (intro ext) (simp add: main_def main_expecting_def test_branches_as_expecting)

lemma main_inverted_as_expecting: "main_inverted = main_expecting 1 2 3 4 5 99"
  by (intro ext)
    (simp add: main_inverted_def main_expecting_def test_branches_inverted_as_expecting)

lemma group_records:
  "test_arithmetic L = ASSERT_seq (replicate 12 True) L"
  "test_memory L = ASSERT_seq (replicate 6 True) L"
  "test_explicit_instructions L = ASSERT_seq (replicate 7 True) L"
  "test_branches L = ASSERT_seq (replicate 6 True) L"
  "test_loops L = ASSERT_seq (replicate 2 True) L"
  "test_functions L = ASSERT_seq (replicate 2 True) L"
  "test_immediates L = ASSERT_seq (replicate 7 True) L"
  "test_upper_immediates pc L = ASSERT_seq (replicate 3 True) L"
  "test_jumps L = ASSERT_seq (replicate 2 True) L"
  by (simp_all add: group_effects ASSERT_seq_replicate_True)

lemma main_expecting_records:
  "main_expecting e1 e2 e3 e4 e5 e6 pc L =
     (test_result (ASSERT_seq (replicate 25 True @ [1 = e1, 2 = e2, 3 = e3, 4 = e4, 5 = e5, 6 = e6]
          @ replicate 16 True) (reset_counters L)),
      ASSERT_seq (replicate 25 True @ [1 = e1, 2 = e2, 3 = e3, 4 = e4, 5 = e5, 6 = e6]
          @ replicate 16 True) (reset_counters L))"
proof -
  have before: "test_explicit_instructions (test_memory (test_arithmetic (reset_counters L)))
      = ASSERT_seq (replicate 25 True) (reset_counters L)"
    by (simp add: group_effects ASSERT_seq_replicate_True)
  have after: "test_jumps (test_upper_immediates pc (test_immediates (test_functions (test_loops M))))
      = ASSERT_seq (replicate 16 True) M" for M
    by (simp add: group_effects ASSERT_seq_replicate_True)
  have "main_expecting e1 e2 e3 e4 e5 e6 pc L =
     (let M = test_jumps (test_upper_immediates pc (test_immediates (test_functions (test_loops
         (test_branches_expecting e1 e2 e3 e4 e5 e6
           (test_explicit_instructions (test_memory (test_arithmetic (reset_counters L)))))))))
      in (test_result M, M))"
    by (simp add: main_expecting_def Let_def reset_counters_def)
  then show ?thesis
    unfolding before after test_branches_expecting_records
    by (simp only: ASSERT_seq_append Let_def)
qed

lemma filter_id_replicate_True: "filter id (replicate n True) = replicate n True"
  by (induction n) simp_all

lemma filter_Not_replicate_True: "filter Not (replicate n True) = []"
  by (induction n) simp_all

lemma main_expecting_counters:
  fixes e1 e2 e3 e4 e5 e6 :: "32 word"
  defines "cs \<equiv> [1 = e1, 2 = e2, 3 = e3, 4 = e4, 5 = e5, 6 = e6]"
  shows "test_passed (snd (main_expecting e1 e2 e3 e4 e5 e6 pc L))
           = 41 + of_nat (length (filter id cs))"
    and "test_failed (snd (main_expecting e1 e2 e3 e4 e5 e6 pc L))
           = of_nat (length (filter Not cs))"
    and "(test_result (snd (main_expecting e1 e2 e3 e4 e5 e6 pc L)) = 0)
           = (e1 = 1 \<and> e2 = 2 \<and> e3 = 3 \<and> e4 = 4 \<and> e5 = 5 \<and> e6 = 6)"
    and "(test_failed (snd (main_expecting e1 e2 e3 e4 e5 e6 pc L)) = 0)
           = (e1 = 1 \<and> e2 = 2 \<and> e3 = 3 \<and> e4 = 4 \<and> e5 = 5 \<and> e6 = 6)"
proof -
  let ?run = "snd (main_expecting e1 e2 e3 e4 e5 e6 pc L)"
  have run: "?run = ASSERT_seq (replicate 25 True @ cs @ replicate 16 True) (reset_counters L)"
    by (simp add: main_expecting_records cs_def)
  have fid: "filter id (replicate 25 True @ cs @ replicate 16 True)
      = replicate 25 True @ filter id cs @ replicate 16 True"
    by (simp only: filter_append filter_id_replicate_True)
  have fnot: "filter Not (replicate 25 True @ cs @ replicate 16 True) = filter Not cs"
    by (simp only: filter_append filter_Not_replicate_True append_Nil append_Nil2)
  show p: "test_passed ?run = 41 + of_nat (length (filter id cs))"
    unfolding run test_passed_ASSERT_seq fid by (simp add: reset_counters_def)
  show f: "test_failed ?run = of_nat (length (filter Not cs))"
    unfolding run test_failed_ASSERT_seq fnot by (simp add: reset_counters_def)
  have all: "(filter Not cs = []) = (e1 = 1 \<and> e2 = 2 \<and> e3 = 3 \<and> e4 = 4 \<and> e5 = 5 \<and> e6 = 6)"
    by (auto simp: cs_def filter_empty_conv)
  show "(test_result ?run = 0) = (e1 = 1 \<and> e2 = 2 \<and> e3 = 3 \<and> e4 = 4 \<and> e5 = 5 \<and> e6 = 6)"
    unfolding run test_result_ASSERT_seq fnot all [symmetric]
    by (simp add: reset_counters_def)
  have "length (filter Not cs) \<le> length cs"
    by (rule length_filter_le)
  then have "length (filter Not cs) < 2 ^ 32"
    by (simp add: cs_def)
  then have "((of_nat (length (filter Not cs)) :: 32 word) = 0) = (filter Not cs = [])"
    by (auto simp: word_of_nat_eq_0_iff dest: dvd_imp_le)
  then show "(test_failed ?run = 0) = (e1 = 1 \<and> e2 = 2 \<and> e3 = 3 \<and> e4 = 4 \<and> e5 = 5 \<and> e6 = 6)"
    unfolding f all .
qed

lemma failures_le_length: "length (filter Not cs) \<le> length cs"
  by (rule length_filter_le)

subsection \<open>Properties of the ledger\<close>

lemma filter_Not_replicate_False: "filter Not (replicate n False) = replicate n False"
  by (induction n) simp_all

lemma length_filter_id_Not: "length (filter id cs) + length (filter Not cs) = length cs"
  by (induction cs) simp_all

lemma unat_of_nat_32: "n < 2 ^ 32 \<Longrightarrow> unat (of_nat n :: 32 word) = n"
  by (simp add: unat_of_nat)

text \<open>
  Claim C1. After the counters are reset, for any sequence of assertion records,
  \<open>test_result\<close> is nonzero exactly when at least one recorded assertion failed. It is 0
  if and only if \<open>test_failed\<close> is 0 for every sequence in which fewer than \<open>2 ^ 32\<close>
  assertions fail, so for every sequence of the 47 records that a run of the harness
  makes; on the run of \<open>main\<close> itself; and on the run of \<open>main\<close> with any assertions of
  \<open>test_branches\<close> inverted.
\<close>

theorem status_zero_iff_no_failure:
  "(test_result (ASSERT_seq cs (reset_counters L0)) \<noteq> 0) = (False \<in> set cs)
   \<and> (length (filter Not cs) < 2 ^ 32 \<longrightarrow>
        (test_result (ASSERT_seq cs (reset_counters L0)) = 0)
          = (test_failed (ASSERT_seq cs (reset_counters L0)) = 0))
   \<and> (length cs = sum_list (map snd assertion_sites) \<longrightarrow>
        (test_result (ASSERT_seq cs (reset_counters L0)) = 0)
          = (test_failed (ASSERT_seq cs (reset_counters L0)) = 0))
   \<and> snd (main pc L1) = ASSERT_seq (replicate 47 True) (reset_counters L1)
   \<and> ((test_result (snd (main pc L1)) = 0) = (test_failed (snd (main pc L1)) = 0))
   \<and> fst (main pc L1) = test_result (snd (main pc L1))
   \<and> ((test_result (snd (main_expecting e1 e2 e3 e4 e5 e6 pc L1)) = 0)
        = (test_failed (snd (main_expecting e1 e2 e3 e4 e5 e6 pc L1)) = 0))"
proof -
  let ?n = "length (filter Not cs)"
  let ?run = "ASSERT_seq cs (reset_counters L0)"
  have f: "test_failed ?run = (of_nat ?n :: 32 word)"
    by (simp add: test_failed_ASSERT_seq reset_counters_def)
  have r: "test_result ?run = (if ?n = 0 then 0 else 1)"
    by (simp add: test_result_ASSERT_seq reset_counters_def)
  have "(filter Not cs = []) = (False \<notin> set cs)"
    by (induction cs) auto
  then have any: "(test_result ?run \<noteq> 0) = (False \<in> set cs)"
    by (simp add: test_result_ASSERT_seq reset_counters_def)
  have bounded: "(test_result ?run = 0) = (test_failed ?run = 0)" if "?n < 2 ^ 32"
  proof -
    have "((of_nat ?n :: 32 word) = 0) = (?n = 0)"
      using that by (auto simp: word_of_nat_eq_0_iff dest: dvd_imp_le)
    with f r show ?thesis by simp
  qed
  have harness: "(test_result ?run = 0) = (test_failed ?run = 0)"
    if "length cs = sum_list (map snd assertion_sites)"
  proof -
    from that have "length cs = 47"
      by (simp add: assertion_sites_def)
    with failures_le_length [of cs] have "?n < 2 ^ 32"
      by simp
    then show ?thesis by (rule bounded)
  qed
  have main: "snd (main pc L1) = ASSERT_seq (replicate 47 True) (reset_counters L1)"
    "(test_result (snd (main pc L1)) = 0) = (test_failed (snd (main pc L1)) = 0)"
    "fst (main pc L1) = test_result (snd (main pc L1))"
    by (simp_all add: main_ledger ASSERT_seq_replicate_True reset_counters_def)
  have expecting: "(test_result (snd (main_expecting e1 e2 e3 e4 e5 e6 pc L1)) = 0)
        = (test_failed (snd (main_expecting e1 e2 e3 e4 e5 e6 pc L1)) = 0)"
    by (simp only: main_expecting_counters(3,4))
  from any bounded harness main expecting show ?thesis
    by (intro conjI impI)
qed

theorem status_zero_iff_no_failure_witness:
  "length (filter Not [True, False, True]) < 2 ^ 32
   \<and> False \<in> set [True, False, True]
   \<and> test_result (ASSERT_seq [True, False, True] (reset_counters initial_ledger)) = 1
   \<and> test_failed (ASSERT_seq [True, False, True] (reset_counters initial_ledger)) = 1
   \<and> ((test_result (ASSERT_seq [True, False, True] (reset_counters initial_ledger)) = 0)
        = (test_failed (ASSERT_seq [True, False, True] (reset_counters initial_ledger)) = 0))
   \<and> length (replicate 47 True) = sum_list (map snd assertion_sites)
   \<and> test_result (ASSERT_seq (replicate 47 True) (reset_counters initial_ledger)) = 0
   \<and> test_failed (ASSERT_seq (replicate 47 True) (reset_counters initial_ledger)) = 0
   \<and> test_result (snd (main_expecting 1 2 3 4 5 99 0 initial_ledger)) \<noteq> 0
   \<and> test_failed (snd (main_expecting 1 2 3 4 5 99 0 initial_ledger)) \<noteq> 0"
proof -
  note a = status_zero_iff_no_failure
    [where cs = "[True, False, True]" and ?L0.0 = initial_ledger and pc = 0
       and ?L1.0 = initial_ledger
       and ?e1.0 = 1 and ?e2.0 = 2 and ?e3.0 = 3 and ?e4.0 = 4 and ?e5.0 = 5 and ?e6.0 = 99]
  have len: "length (replicate 47 True) = sum_list (map snd assertion_sites)"
    by (simp add: assertion_sites_def)
  have run: "ASSERT_seq [True, False, True] (reset_counters initial_ledger)
      = \<lparr>test_result = 1, test_passed = 2, test_failed = 1\<rparr>"
    by (simp add: ASSERT_decided reset_counters_def initial_ledger_def)
  have all: "ASSERT_seq (replicate 47 True) (reset_counters initial_ledger)
      = \<lparr>test_result = 0, test_passed = 47, test_failed = 0\<rparr>"
    by (simp add: ASSERT_seq_replicate_True reset_counters_def initial_ledger_def)
  have e: "test_result (snd (main_expecting 1 2 3 4 5 99 0 initial_ledger)) \<noteq> 0"
    by (simp add: main_expecting_counters(3))
  from a have "(test_result (snd (main_expecting 1 2 3 4 5 99 0 initial_ledger)) = 0)
        = (test_failed (snd (main_expecting 1 2 3 4 5 99 0 initial_ledger)) = 0)"
    by (elim conjE)
  with e have "test_failed (snd (main_expecting 1 2 3 4 5 99 0 initial_ledger)) \<noteq> 0"
    by simp
  with e show ?thesis
    unfolding run all using len by simp
qed

text \<open>
  The bound is there for the 32-bit counter alone: a sequence of \<open>2 ^ 32\<close> failing
  records, which no run of the program makes (its assertions are straight-line code),
  would leave \<open>test_failed\<close> at 0.
\<close>

lemma failed_counter_wraps:
  "test_result (ASSERT_seq (replicate (2 ^ 32) False) (reset_counters initial_ledger)) = 1
   \<and> test_failed (ASSERT_seq (replicate (2 ^ 32) False) (reset_counters initial_ledger)) = 0"
proof -
  let ?cs = "replicate (2 ^ 32) False"
  have n: "length (filter Not ?cs) = 2 ^ 32"
    by (simp only: filter_Not_replicate_False length_replicate)
  have ne: "filter Not ?cs \<noteq> []"
    using n by (metis list.size(3) zero_neq_numeral power_not_zero)
  have z: "(of_nat (2 ^ 32) :: 32 word) = 0"
    by simp
  have r: "test_result (ASSERT_seq ?cs (reset_counters initial_ledger)) = 1"
    unfolding test_result_ASSERT_seq using ne by simp
  have f: "test_failed (ASSERT_seq ?cs (reset_counters initial_ledger)) = 0"
    unfolding test_failed_ASSERT_seq n using z
    by (simp add: reset_counters_def initial_ledger_def)
  show ?thesis
    unfolding r f by simp
qed

text \<open>
  Claim C2. Each \<open>ASSERT\<close> adds one to exactly one of \<open>test_passed\<close> and \<open>test_failed\<close>
  and leaves the other unchanged. After the reset, at every point of a run at which
  \<open>length cs\<close> assertions have been recorded (fewer than \<open>2 ^ 32\<close>), the two counters
  add up to \<open>length cs\<close>. The run of \<open>main\<close> is a sequence of 47 records, and when it
  has run to completion the counters add up to the number of \<open>ASSERT\<close> statements in the
  groups it calls, which is 47.
\<close>

theorem passed_plus_failed_counts_assertions:
  "test_passed (ASSERT True L) = test_passed L + 1
   \<and> test_failed (ASSERT True L) = test_failed L
   \<and> test_passed (ASSERT False L) = test_passed L
   \<and> test_failed (ASSERT False L) = test_failed L + 1
   \<and> (length cs < 2 ^ 32 \<longrightarrow>
        unat (test_passed (ASSERT_seq cs (reset_counters L0)))
          + unat (test_failed (ASSERT_seq cs (reset_counters L0))) = length cs)
   \<and> snd (main pc L1) = ASSERT_seq (replicate 47 True) (reset_counters L1)
   \<and> unat (test_passed (snd (main pc L1))) + unat (test_failed (snd (main pc L1)))
       = sum_list (map snd assertion_sites)
   \<and> sum_list (map snd assertion_sites) = 47"
proof -
  have seq: "unat (test_passed (ASSERT_seq cs (reset_counters L0)))
          + unat (test_failed (ASSERT_seq cs (reset_counters L0))) = length cs"
    if "length cs < 2 ^ 32"
  proof -
    let ?p = "length (filter id cs)" and ?f = "length (filter Not cs)"
    have sum: "?p + ?f = length cs"
      by (rule length_filter_id_Not)
    with that have "?p < 2 ^ 32" and "?f < 2 ^ 32"
      by linarith+
    then have "unat (of_nat ?p :: 32 word) = ?p" and "unat (of_nat ?f :: 32 word) = ?f"
      by (simp_all only: unat_of_nat_32)
    with sum show ?thesis
      by (simp add: test_passed_ASSERT_seq test_failed_ASSERT_seq reset_counters_def)
  qed
  have total: "sum_list (map snd assertion_sites) = 47"
    by (simp add: assertion_sites_def)
  show ?thesis
    using seq
    by (simp add: ASSERT_decided main_ledger total ASSERT_seq_replicate_True reset_counters_def)
qed

theorem passed_plus_failed_counts_assertions_witness:
  "length [True, False, True] < 2 ^ 32
   \<and> unat (test_passed (ASSERT_seq [True, False, True] (reset_counters initial_ledger))) = 2
   \<and> unat (test_failed (ASSERT_seq [True, False, True] (reset_counters initial_ledger))) = 1
   \<and> unat (test_passed (ASSERT_seq [True, False, True] (reset_counters initial_ledger)))
       + unat (test_failed (ASSERT_seq [True, False, True] (reset_counters initial_ledger)))
       = length [True, False, True]
   \<and> unat (test_passed (snd (main 0 initial_ledger)))
       + unat (test_failed (snd (main 0 initial_ledger))) = 47"
  using passed_plus_failed_counts_assertions
    [of initial_ledger "[True, False, True]" initial_ledger 0 initial_ledger]
  by (simp add: ASSERT_decided reset_counters_def initial_ledger_def main_ledger
      ASSERT_seq_replicate_True)

text \<open>
  Claim C3. \<open>ASSERT\<close> has no branch that leaves the run: a failing \<open>ASSERT\<close> returns the
  ledger with the failure recorded, and the records after it are made. Every one of the
  nine groups, from any ledger \<open>L\<close>, whatever failures it already records, makes all its
  records (the loops and the recursion terminate). \<open>test_branches\<close> with any of its six
  assertions inverted still makes all six records, and \<open>main\<close> then makes the 25 records
  of the groups before it, these six, and the 16 records of the five groups after it:
  \<open>test_failed\<close> and \<open>test_result\<close> are nonzero exactly when some expected count is wrong,
  and \<open>test_passed\<close> holds the 41 passes of the other groups and those of \<open>test_branches\<close>.
  In Scenario D (the last assertion expecting 99 where the count is 6) \<open>main\<close> ends with
  one failure, status 1, return value 1 and 46 passes, 30 of them recorded up to the
  failure and 16 after it.
\<close>

theorem failing_assertion_never_aborts:
  "ASSERT False L = L\<lparr>test_failed := test_failed L + 1, test_result := 1\<rparr>
   \<and> ASSERT_seq (False # cs) L = ASSERT_seq cs (ASSERT False L)
   \<and> test_arithmetic L = ASSERT_seq (replicate 12 True) L
   \<and> test_memory L = ASSERT_seq (replicate 6 True) L
   \<and> test_explicit_instructions L = ASSERT_seq (replicate 7 True) L
   \<and> test_branches L = ASSERT_seq (replicate 6 True) L
   \<and> test_loops L = ASSERT_seq (replicate 2 True) L
   \<and> test_functions L = ASSERT_seq (replicate 2 True) L
   \<and> test_immediates L = ASSERT_seq (replicate 7 True) L
   \<and> test_upper_immediates pc L = ASSERT_seq (replicate 3 True) L
   \<and> test_jumps L = ASSERT_seq (replicate 2 True) L
   \<and> test_branches_expecting e1 e2 e3 e4 e5 e6 L
       = ASSERT_seq [1 = e1, 2 = e2, 3 = e3, 4 = e4, 5 = e5, 6 = e6] L
   \<and> test_branches = test_branches_expecting 1 2 3 4 5 6
   \<and> test_branches_inverted = test_branches_expecting 1 2 3 4 5 99
   \<and> main = main_expecting 1 2 3 4 5 6
   \<and> main_inverted = main_expecting 1 2 3 4 5 99
   \<and> snd (main_expecting e1 e2 e3 e4 e5 e6 pc L0)
       = ASSERT_seq (replicate 25 True @ [1 = e1, 2 = e2, 3 = e3, 4 = e4, 5 = e5, 6 = e6]
           @ replicate 16 True) (reset_counters L0)
   \<and> fst (main_expecting e1 e2 e3 e4 e5 e6 pc L0)
       = test_result (snd (main_expecting e1 e2 e3 e4 e5 e6 pc L0))
   \<and> test_passed (snd (main_expecting e1 e2 e3 e4 e5 e6 pc L0))
       = 41 + of_nat (length (filter id [1 = e1, 2 = e2, 3 = e3, 4 = e4, 5 = e5, 6 = e6]))
   \<and> test_failed (snd (main_expecting e1 e2 e3 e4 e5 e6 pc L0))
       = of_nat (length (filter Not [1 = e1, 2 = e2, 3 = e3, 4 = e4, 5 = e5, 6 = e6]))
   \<and> (test_failed (snd (main_expecting e1 e2 e3 e4 e5 e6 pc L0)) = 0)
       = (e1 = 1 \<and> e2 = 2 \<and> e3 = 3 \<and> e4 = 4 \<and> e5 = 5 \<and> e6 = 6)
   \<and> (test_result (snd (main_expecting e1 e2 e3 e4 e5 e6 pc L0)) = 0)
       = (e1 = 1 \<and> e2 = 2 \<and> e3 = 3 \<and> e4 = 4 \<and> e5 = 5 \<and> e6 = 6)
   \<and> test_failed (snd (main_inverted pc L0)) = 1
   \<and> test_result (snd (main_inverted pc L0)) = 1
   \<and> fst (main_inverted pc L0) = 1
   \<and> test_passed (snd (main_inverted pc L0)) = 46
   \<and> snd (main_inverted pc L0) =
       ASSERT_seq (replicate 30 True @ False # replicate 16 True) (reset_counters L0)
   \<and> snd (main_inverted pc L0) =
       test_jumps (test_upper_immediates pc (test_immediates (test_functions (test_loops
         (test_branches_inverted (test_explicit_instructions (test_memory (test_arithmetic
           (reset_counters L0)))))))))
   \<and> test_failed (test_branches_inverted (test_explicit_instructions (test_memory
         (test_arithmetic (reset_counters L0))))) = 1
   \<and> test_passed (test_branches_inverted (test_explicit_instructions (test_memory
         (test_arithmetic (reset_counters L0))))) = 30
   \<and> test_passed (test_jumps (test_upper_immediates pc (test_immediates (test_functions
         (test_loops L))))) = test_passed L + 16
   \<and> test_failed (test_jumps (test_upper_immediates pc (test_immediates (test_functions
         (test_loops L))))) = test_failed L
   \<and> test_result (test_jumps (test_upper_immediates pc (test_immediates (test_functions
         (test_loops L))))) = test_result L"
proof -
  have scenario_D: "test_failed (snd (main_inverted pc L0)) = 1"
    "test_result (snd (main_inverted pc L0)) = 1"
    "fst (main_inverted pc L0) = 1"
    "test_passed (snd (main_inverted pc L0)) = 46"
    "snd (main_inverted pc L0) =
       ASSERT_seq (replicate 30 True @ False # replicate 16 True) (reset_counters L0)"
    "snd (main_inverted pc L0) =
       test_jumps (test_upper_immediates pc (test_immediates (test_functions (test_loops
         (test_branches_inverted (test_explicit_instructions (test_memory (test_arithmetic
           (reset_counters L0)))))))))"
    "test_failed (test_branches_inverted (test_explicit_instructions (test_memory
         (test_arithmetic (reset_counters L0))))) = 1"
    "test_passed (test_branches_inverted (test_explicit_instructions (test_memory
         (test_arithmetic (reset_counters L0))))) = 30"
    "test_passed (test_jumps (test_upper_immediates pc (test_immediates (test_functions
         (test_loops L))))) = test_passed L + 16"
    "test_failed (test_jumps (test_upper_immediates pc (test_immediates (test_functions
         (test_loops L))))) = test_failed L"
    "test_result (test_jumps (test_upper_immediates pc (test_immediates (test_functions
         (test_loops L))))) = test_result L"
    by (simp_all add: main_inverted_ledger group_effects test_branches_inverted_fails_once
        reset_counters_def ASSERT_seq_append ASSERT_seq_replicate_True ASSERT_False)
  have run: "snd (main_expecting e1 e2 e3 e4 e5 e6 pc L0)
       = ASSERT_seq (replicate 25 True @ [1 = e1, 2 = e2, 3 = e3, 4 = e4, 5 = e5, 6 = e6]
           @ replicate 16 True) (reset_counters L0)"
    and ret: "fst (main_expecting e1 e2 e3 e4 e5 e6 pc L0)
       = test_result (snd (main_expecting e1 e2 e3 e4 e5 e6 pc L0))"
    by (simp_all only: main_expecting_records fst_conv snd_conv)
  have step: "ASSERT_seq (False # cs) L = ASSERT_seq cs (ASSERT False L)"
    by simp
  note ASSERT_False step group_records(1-7) [of L] group_records(8) [of pc L]
    group_records(9) [of L]
    test_branches_expecting_records
    test_branches_as_expecting test_branches_inverted_as_expecting
    main_as_expecting main_inverted_as_expecting run ret
    main_expecting_counters [of e1 e2 e3 e4 e5 e6 pc L0] scenario_D
  then show ?thesis
    by (intro conjI)
qed

theorem failing_assertion_never_aborts_witness:
  "main_expecting 99 2 3 4 5 6 0 initial_ledger
     = (1, \<lparr>test_result = 1, test_passed = 46, test_failed = 1\<rparr>)
   \<and> main_expecting 99 2 3 4 5 99 0 initial_ledger
     = (1, \<lparr>test_result = 1, test_passed = 45, test_failed = 2\<rparr>)
   \<and> main_inverted 0 initial_ledger
     = (1, \<lparr>test_result = 1, test_passed = 46, test_failed = 1\<rparr>)
   \<and> test_memory \<lparr>test_result = 1, test_passed = 12, test_failed = 3\<rparr>
     = \<lparr>test_result = 1, test_passed = 18, test_failed = 3\<rparr>
   \<and> test_passed (test_jumps (test_upper_immediates 0 (test_immediates (test_functions
         (test_loops \<lparr>test_result = 1, test_passed = 30, test_failed = 1\<rparr>))))) = 46"
proof -
  let ?L = "\<lparr>test_result = 1, test_passed = 12, test_failed = 3\<rparr>"
  let ?M = "\<lparr>test_result = 1, test_passed = 30, test_failed = 1\<rparr>"
  note a = failing_assertion_never_aborts
    [where L = ?L and cs = "[]" and pc = 0 and ?L0.0 = initial_ledger
       and ?e1.0 = 99 and ?e2.0 = 2 and ?e3.0 = 3 and ?e4.0 = 4 and ?e5.0 = 5 and ?e6.0 = 6]
  note b = failing_assertion_never_aborts
    [where L = ?M and cs = "[]" and pc = 0 and ?L0.0 = initial_ledger
       and ?e1.0 = 99 and ?e2.0 = 2 and ?e3.0 = 3 and ?e4.0 = 4 and ?e5.0 = 5 and ?e6.0 = 99]
  from a have "test_memory ?L = ASSERT_seq (replicate 6 True) ?L"
    by (elim conjE)
  then have m: "test_memory ?L = \<lparr>test_result = 1, test_passed = 18, test_failed = 3\<rparr>"
    by (simp add: ASSERT_seq_replicate_True)
  from a have "snd (main_expecting 99 2 3 4 5 6 0 initial_ledger)
       = ASSERT_seq (replicate 25 True @ [1 = (99 :: 32 word), 2 = (2 :: 32 word),
             3 = (3 :: 32 word), 4 = (4 :: 32 word), 5 = (5 :: 32 word), 6 = (6 :: 32 word)]
           @ replicate 16 True) (reset_counters initial_ledger)"
    by (elim conjE)
  then have r1: "snd (main_expecting 99 2 3 4 5 6 0 initial_ledger)
      = \<lparr>test_result = 1, test_passed = 46, test_failed = 1\<rparr>"
    by (simp add: ASSERT_seq_append ASSERT_seq_replicate_True ASSERT_decided reset_counters_def
        initial_ledger_def)
  from b have "snd (main_expecting 99 2 3 4 5 99 0 initial_ledger)
       = ASSERT_seq (replicate 25 True @ [1 = (99 :: 32 word), 2 = (2 :: 32 word),
             3 = (3 :: 32 word), 4 = (4 :: 32 word), 5 = (5 :: 32 word), 6 = (99 :: 32 word)]
           @ replicate 16 True) (reset_counters initial_ledger)"
    by (elim conjE)
  then have r2: "snd (main_expecting 99 2 3 4 5 99 0 initial_ledger)
      = \<lparr>test_result = 1, test_passed = 45, test_failed = 2\<rparr>"
    by (simp add: ASSERT_seq_append ASSERT_seq_replicate_True ASSERT_decided reset_counters_def
        initial_ledger_def)
  from a have f1: "fst (main_expecting 99 2 3 4 5 6 0 initial_ledger)
       = test_result (snd (main_expecting 99 2 3 4 5 6 0 initial_ledger))"
    by (elim conjE)
  from b have f2: "fst (main_expecting 99 2 3 4 5 99 0 initial_ledger)
       = test_result (snd (main_expecting 99 2 3 4 5 99 0 initial_ledger))"
    by (elim conjE)
  from b have d1: "fst (main_inverted 0 initial_ledger) = 1"
    by (elim conjE)
  from b have "snd (main_inverted 0 initial_ledger) =
       ASSERT_seq (replicate 30 True @ False # replicate 16 True) (reset_counters initial_ledger)"
    by (elim conjE)
  with d1 have d: "main_inverted 0 initial_ledger
     = (1, \<lparr>test_result = 1, test_passed = 46, test_failed = 1\<rparr>)"
    by (simp add: prod_eq_iff ASSERT_seq_append ASSERT_seq_replicate_True ASSERT_decided
        reset_counters_def initial_ledger_def)
  from b have "test_passed (test_jumps (test_upper_immediates 0 (test_immediates (test_functions
         (test_loops ?M))))) = test_passed ?M + 16"
    by (elim conjE)
  then have after: "test_passed (test_jumps (test_upper_immediates 0 (test_immediates
         (test_functions (test_loops ?M))))) = 46"
    by simp
  from r1 f1 r2 f2 m d after show ?thesis
    by (simp add: prod_eq_iff)
qed

section \<open>Properties of the coverage check\<close>

subsection \<open>The search finds exactly the standalone tokens\<close>

lemma line_search_iff:
  "line_search insn before rest
     \<longleftrightarrow> (\<exists>pre post. rest = pre @ post \<and> matches_at insn (before @ pre) post)"
proof (induction rest arbitrary: before)
  case Nil
  then show ?case by simp
next
  case (Cons c rest)
  show ?case
  proof
    assume "line_search insn before (c # rest)"
    then consider "matches_at insn before (c # rest)" | "line_search insn (before @ [c]) rest"
      by auto
    then show "\<exists>pre post. c # rest = pre @ post \<and> matches_at insn (before @ pre) post"
    proof cases
      case 1
      then have "c # rest = [] @ (c # rest) \<and> matches_at insn (before @ []) (c # rest)"
        by simp
      then show ?thesis by blast
    next
      case 2
      then obtain pre post where "rest = pre @ post"
        and "matches_at insn ((before @ [c]) @ pre) post"
        using Cons.IH [of "before @ [c]"] by blast
      then have "c # rest = (c # pre) @ post \<and> matches_at insn (before @ (c # pre)) post"
        by simp
      then show ?thesis by blast
    qed
  next
    assume "\<exists>pre post. c # rest = pre @ post \<and> matches_at insn (before @ pre) post"
    then obtain pre post where e: "c # rest = pre @ post"
      and m: "matches_at insn (before @ pre) post"
      by blast
    show "line_search insn before (c # rest)"
    proof (cases pre)
      case Nil
      with e m have "matches_at insn before (c # rest)" by simp
      then show ?thesis by simp
    next
      case (Cons d pre')
      with e m have "rest = pre' @ post" and "matches_at insn ((before @ [c]) @ pre') post"
        by simp_all
      then have "line_search insn (before @ [c]) rest"
        using Cons.IH [of "before @ [c]"] by blast
      then show ?thesis by simp
    qed
  qed
qed

lemma matches_at_append:
  assumes "insn \<noteq> []" "is_word_char (hd insn)" "is_word_char (last insn)"
  shows "matches_at insn before (insn @ after)
     \<longleftrightarrow> (before = [] \<or> \<not> is_word_char (last before))
         \<and> (after = [] \<or> \<not> is_word_char (hd after))"
  using assms by (auto simp: matches_at_def word_edge_def)

lemma matches_at_prefix: "matches_at insn before rest \<Longrightarrow> \<exists>after. rest = insn @ after"
proof -
  assume "matches_at insn before rest"
  then have "take (length insn) rest = insn"
    by (simp add: matches_at_def)
  then have "rest = insn @ drop (length insn) rest"
    by (metis append_take_drop_id)
  then show ?thesis ..
qed

lemma matches_at_word:
  assumes "insn \<noteq> []" "is_word_char (hd insn)" "is_word_char (last insn)"
  shows "matches_at insn before rest
     \<longleftrightarrow> (\<exists>after. rest = insn @ after
            \<and> (before = [] \<or> \<not> is_word_char (last before))
            \<and> (after = [] \<or> \<not> is_word_char (hd after)))"
  using matches_at_append [OF assms] matches_at_prefix by blast

lemma grep_line_word:
  assumes "insn \<noteq> []" "is_word_char (hd insn)" "is_word_char (last insn)"
  shows "grep_line insn line \<longleftrightarrow> standalone_token_on insn line"
  unfolding grep_line_def line_search_iff standalone_token_on_def
  by (simp add: matches_at_word [OF assms]) blast

lemma grep_qE_word:
  assumes "m \<noteq> []" "is_word_char (hd m)" "is_word_char (last m)"
  shows "grep_qE m dump \<longleftrightarrow> (\<exists>line \<in> set dump. standalone_token_on m line)"
  by (simp add: grep_qE_def list_ex_iff grep_line_word [OF assms])

lemma standalone_token_on_self: "standalone_token_on m m"
proof -
  have "m = [] @ m @ []" by simp
  then show ?thesis
    unfolding standalone_token_on_def by blast
qed

subsection \<open>Evaluating the search on a given line\<close>

text \<open>
  Equations that decide a search step from the first character at the position, so that
  the word edges are only looked at where the text of the mnemonic starts.
\<close>

lemma line_search_Nil_eval: "line_search (i # is) before [] = False"
  by (simp add: matches_at_def)

lemma line_search_Cons_eval:
  "line_search (i # is) before (c # rest) =
     (if c = i
      then (if take (length is) rest = is
            then (word_edge before (c # rest)
                  \<and> word_edge (before @ i # is) (drop (length is) rest))
                 \<or> line_search (i # is) (before @ [c]) rest
            else line_search (i # is) (before @ [c]) rest)
      else line_search (i # is) (before @ [c]) rest)"
  by (auto simp: matches_at_def)

declare line_search.simps [simp del]

lemmas grep_eval =
  grep_qE_def grep_line_def line_search_Nil_eval line_search_Cons_eval word_edge_def
  is_word_char_def

subsection \<open>What the recipe prints and returns\<close>

lemma for_insn_eq:
  "for_insn required dump (out, missing) =
     (out @ map (\<lambda>insn. ''  MISSING: '' @ insn) (missing_mnemonics required dump),
      missing + length (missing_mnemonics required dump))"
  by (induction required arbitrary: out missing) (simp_all add: missing_mnemonics_def)

lemma verify_instructions_for_eq:
  "verify_instructions_for required dump =
     (''Checking RV32I instruction coverage...''
        # map (\<lambda>insn. ''  MISSING: '' @ insn) (missing_mnemonics required dump)
        @ [if missing_mnemonics required dump = []
           then ''  All RV32I instructions present in dump.''
           else ''  '' @ show_nat (length (missing_mnemonics required dump))
                @ '' instruction(s) not found.''],
      if missing_mnemonics required dump = [] then 0 else 1)"
  by (simp add: verify_instructions_for_def for_insn_eq)

lemma missing_mnemonics_mset:
  "mset required = mset required' \<Longrightarrow>
     mset (missing_mnemonics required dump) = mset (missing_mnemonics required' dump)"
  unfolding missing_mnemonics_def by (metis mset_filter)

lemma missing_mnemonics_empty_mset:
  "mset required = mset required' \<Longrightarrow>
     (missing_mnemonics required dump = []) = (missing_mnemonics required' dump = [])"
  by (metis missing_mnemonics_mset mset_zero_iff)

lemma distinct_rv32i_insns: "distinct rv32i_insns"
  by (simp add: rv32i_insns_def)

lemma word_rv32i_insns: "list_all (\<lambda>m. m \<noteq> [] \<and> list_all is_word_char m) rv32i_insns"
  by (simp add: rv32i_insns_def is_word_char_def)

lemma word_ends:
  assumes "m \<noteq> []" "list_all is_word_char m"
  shows "is_word_char (hd m)" "is_word_char (last m)"
  using assms by (simp_all add: list_all_iff)

text \<open>A listing that has every mnemonic of the list on a line of its own.\<close>

lemma own_lines_present: "insn \<in> set rv32i_insns \<Longrightarrow> grep_qE insn rv32i_insns"
proof -
  assume i: "insn \<in> set rv32i_insns"
  with word_rv32i_insns have "insn \<noteq> []" "list_all is_word_char insn"
    by (auto simp: list_all_iff)
  then have "insn \<noteq> []" "is_word_char (hd insn)" "is_word_char (last insn)"
    by (simp_all add: word_ends)
  then show ?thesis
    using i standalone_token_on_self grep_qE_word by blast
qed

lemma own_lines_all_present: "missing_mnemonics rv32i_insns rv32i_insns = []"
  by (simp add: missing_mnemonics_def filter_empty_conv own_lines_present)

lemma sll_not_in_slli: "\<not> grep_qE ''sll'' [''slli a0, a1, 3'']"
  by (simp add: grep_eval)

lemma sll_own_line: "grep_qE ''sll'' [''slli a0, a1, 3'', ''sll a0, a1, a2'']"
  by (simp add: grep_eval)

lemma show_nat_examples:
  "show_nat (Suc 0) = ''1''" "show_nat 1 = ''1''" "show_nat 2 = ''2''" "show_nat 36 = ''36''"
  by (simp_all add: show_nat.simps)

lemma scenario_B:
  "verify_instructions_for [''sll''] [''slli a0, a1, 3'']
     = ([''Checking RV32I instruction coverage...'', ''  MISSING: sll'',
         ''  1 instruction(s) not found.''], 1)"
  by (simp add: verify_instructions_for_eq missing_mnemonics_def sll_not_in_slli
      show_nat_examples)

text \<open>
  Claim C4. For a mnemonic made of word constituents, as all 37 of the recipe are,
  \<open>grep\<close> finds a match exactly when the mnemonic occurs on some line of the listing as
  a standalone token, delimited on both sides by a word boundary. Scenario B: with the
  one required mnemonic \<open>sll\<close> and the one line \<^verbatim>\<open>slli a0, a1, 3\<close>, \<open>sll\<close> is not
  found and is reported missing.
\<close>

theorem whole_token_matching:
  "(m \<noteq> [] \<and> list_all is_word_char m \<longrightarrow>
      (grep_qE m dump \<longleftrightarrow> (\<exists>line \<in> set dump. standalone_token_on m line)))
   \<and> list_all (\<lambda>m. m \<noteq> [] \<and> list_all is_word_char m) rv32i_insns
   \<and> \<not> grep_qE ''sll'' [''slli a0, a1, 3'']
   \<and> missing_mnemonics [''sll''] [''slli a0, a1, 3''] = [''sll'']
   \<and> verify_instructions_for [''sll''] [''slli a0, a1, 3'']
       = ([''Checking RV32I instruction coverage...'', ''  MISSING: sll'',
           ''  1 instruction(s) not found.''], 1)"
proof -
  have "grep_qE m dump \<longleftrightarrow> (\<exists>line \<in> set dump. standalone_token_on m line)"
    if "m \<noteq> []" "list_all is_word_char m"
    using that by (intro grep_qE_word word_ends)
  moreover have "missing_mnemonics [''sll''] [''slli a0, a1, 3''] = [''sll'']"
    by (simp add: missing_mnemonics_def sll_not_in_slli)
  ultimately show ?thesis
    using word_rv32i_insns sll_not_in_slli scenario_B by blast
qed

theorem whole_token_matching_witness:
  "''sll'' \<noteq> [] \<and> list_all is_word_char ''sll''
   \<and> grep_qE ''sll'' [''slli a0, a1, 3'', ''sll a0, a1, a2'']
   \<and> \<not> standalone_token_on ''sll'' ''slli a0, a1, 3''
   \<and> (standalone_token_on ''sll'' ''slli a0, a1, 3''
        \<or> standalone_token_on ''sll'' ''sll a0, a1, a2'')"
proof -
  have w: "''sll'' \<noteq> [] \<and> list_all is_word_char ''sll''"
    by (simp add: is_word_char_def)
  have "\<not> (\<exists>line \<in> set [''slli a0, a1, 3'']. standalone_token_on ''sll'' line)"
    using whole_token_matching [of "''sll''" "[''slli a0, a1, 3'']"] w sll_not_in_slli by blast
  moreover have "\<exists>line \<in> set [''slli a0, a1, 3'', ''sll a0, a1, a2'']. standalone_token_on ''sll'' line"
    using whole_token_matching [of "''sll''" "[''slli a0, a1, 3'', ''sll a0, a1, a2'']"] w
      sll_own_line by blast
  ultimately show ?thesis
    using w sll_own_line by simp
qed

text \<open>
  Claim C5. Whether the check passes does not depend on the order of the required
  list: two lists with the same members (as multisets) give the same exit status. The
  report keeps the order: the \<open>MISSING\<close> lines printed are those of the absent mnemonics,
  in the order in which the required list has them, so a permuted list gives the same
  missing mnemonics in the permuted order. The exit status is 0 exactly when no
  mnemonic is missing.
\<close>

theorem report_order_and_ok:
  assumes "mset required = mset required'"
  shows "snd (verify_instructions_for required dump) = snd (verify_instructions_for required' dump)
   \<and> (snd (verify_instructions_for required dump) = 0) = (missing_mnemonics required dump = [])
   \<and> fst (verify_instructions_for required dump)
       = ''Checking RV32I instruction coverage...''
         # map (\<lambda>insn. ''  MISSING: '' @ insn) (missing_mnemonics required dump)
         @ [if missing_mnemonics required dump = []
            then ''  All RV32I instructions present in dump.''
            else ''  '' @ show_nat (length (missing_mnemonics required dump))
                 @ '' instruction(s) not found.'']
   \<and> missing_mnemonics required dump = filter (\<lambda>insn. \<not> grep_qE insn dump) required
   \<and> missing_mnemonics required' dump = filter (\<lambda>insn. \<not> grep_qE insn dump) required'
   \<and> mset (missing_mnemonics required' dump) = mset (missing_mnemonics required dump)"
  using missing_mnemonics_mset [OF assms, of dump] missing_mnemonics_empty_mset [OF assms, of dump]
  by (simp add: verify_instructions_for_eq) (simp add: missing_mnemonics_def)

lemma scenario_A_greps:
  "grep_qE ''add'' [''add a0,a0,a1'', ''jal ra,10074'']"
  "\<not> grep_qE ''sub'' [''add a0,a0,a1'', ''jal ra,10074'']"
  "grep_qE ''jal'' [''add a0,a0,a1'', ''jal ra,10074'']"
  "\<not> grep_qE ''xor'' [''add a0,a0,a1'', ''jal ra,10074'']"
  by (simp_all add: grep_eval)

theorem report_order_and_ok_witness:
  "mset [''add'', ''sub'', ''jal'', ''xor''] = mset [''xor'', ''jal'', ''sub'', ''add'']
   \<and> missing_mnemonics [''add'', ''sub'', ''jal'', ''xor''] [''add a0,a0,a1'', ''jal ra,10074'']
       = [''sub'', ''xor'']
   \<and> missing_mnemonics [''xor'', ''jal'', ''sub'', ''add''] [''add a0,a0,a1'', ''jal ra,10074'']
       = [''xor'', ''sub'']
   \<and> snd (verify_instructions_for [''add'', ''sub'', ''jal'', ''xor'']
         [''add a0,a0,a1'', ''jal ra,10074'']) = 1
   \<and> snd (verify_instructions_for [''xor'', ''jal'', ''sub'', ''add'']
         [''add a0,a0,a1'', ''jal ra,10074'']) = 1
   \<and> fst (verify_instructions_for [''add'', ''sub'', ''jal'', ''xor'']
         [''add a0,a0,a1'', ''jal ra,10074''])
       = [''Checking RV32I instruction coverage...'', ''  MISSING: sub'', ''  MISSING: xor'',
          ''  2 instruction(s) not found.'']"
proof -
  have p: "mset [''add'', ''sub'', ''jal'', ''xor''] = mset [''xor'', ''jal'', ''sub'', ''add'']"
    by simp
  have m1: "missing_mnemonics [''add'', ''sub'', ''jal'', ''xor'']
      [''add a0,a0,a1'', ''jal ra,10074''] = [''sub'', ''xor'']"
    by (simp add: missing_mnemonics_def scenario_A_greps)
  have m2: "missing_mnemonics [''xor'', ''jal'', ''sub'', ''add'']
      [''add a0,a0,a1'', ''jal ra,10074''] = [''xor'', ''sub'']"
    by (simp add: missing_mnemonics_def scenario_A_greps)
  have l1: "length [''sub'', ''xor''] = 2"
    by simp
  have v1: "verify_instructions_for [''add'', ''sub'', ''jal'', ''xor'']
      [''add a0,a0,a1'', ''jal ra,10074'']
    = ([''Checking RV32I instruction coverage...'', ''  MISSING: sub'', ''  MISSING: xor'',
        ''  2 instruction(s) not found.''], 1)"
    unfolding verify_instructions_for_eq m1 l1 show_nat_examples by simp
  have v2: "snd (verify_instructions_for [''xor'', ''jal'', ''sub'', ''add'']
      [''add a0,a0,a1'', ''jal ra,10074'']) = 1"
    unfolding verify_instructions_for_eq m2 by simp
  have same: "snd (verify_instructions_for [''add'', ''sub'', ''jal'', ''xor'']
        [''add a0,a0,a1'', ''jal ra,10074''])
      = snd (verify_instructions_for [''xor'', ''jal'', ''sub'', ''add'']
        [''add a0,a0,a1'', ''jal ra,10074''])"
    using report_order_and_ok [OF p, of "[''add a0,a0,a1'', ''jal ra,10074'']"]
    by (rule conjunct1)
  show ?thesis
    using p m1 m2 same v1 v2 by simp
qed

text \<open>
  Claim C6. The recipe exits with a nonzero status exactly when some mnemonic of its
  list is not found in the listing. Then it prints one \<open>MISSING\<close> line for each absent
  mnemonic (each once, in the order of the list), followed by the line with their
  number, and exits with status 1. When every mnemonic is found it prints that all
  instructions are present and exits with status 0.
\<close>

theorem coverage_check_exit_status:
  "(snd (verify_instructions dump) \<noteq> 0) = (\<exists>insn \<in> set rv32i_insns. \<not> grep_qE insn dump)
   \<and> (snd (verify_instructions dump) \<noteq> 0) = (missing_mnemonics rv32i_insns dump \<noteq> [])
   \<and> set (missing_mnemonics rv32i_insns dump) = {insn \<in> set rv32i_insns. \<not> grep_qE insn dump}
   \<and> distinct (missing_mnemonics rv32i_insns dump)
   \<and> (missing_mnemonics rv32i_insns dump \<noteq> [] \<longrightarrow>
        verify_instructions dump =
          (''Checking RV32I instruction coverage...''
             # map (\<lambda>insn. ''  MISSING: '' @ insn) (missing_mnemonics rv32i_insns dump)
             @ [''  '' @ show_nat (length (missing_mnemonics rv32i_insns dump))
                @ '' instruction(s) not found.''], 1))
   \<and> (missing_mnemonics rv32i_insns dump = [] \<longrightarrow>
        verify_instructions dump =
          ([''Checking RV32I instruction coverage...'',
            ''  All RV32I instructions present in dump.''], 0))"
proof -
  let ?missing = "missing_mnemonics rv32i_insns dump"
  have ex: "(?missing \<noteq> []) = (\<exists>insn \<in> set rv32i_insns. \<not> grep_qE insn dump)"
    by (auto simp: missing_mnemonics_def filter_empty_conv)
  have status: "(snd (verify_instructions dump) \<noteq> 0) = (?missing \<noteq> [])"
    by (simp add: verify_instructions_def verify_instructions_for_eq)
  have set: "set ?missing = {insn \<in> set rv32i_insns. \<not> grep_qE insn dump}"
    by (simp add: missing_mnemonics_def)
  have dist: "distinct ?missing"
    by (simp add: missing_mnemonics_def distinct_rv32i_insns)
  have absent: "?missing \<noteq> [] \<longrightarrow>
        verify_instructions dump =
          (''Checking RV32I instruction coverage...''
             # map (\<lambda>insn. ''  MISSING: '' @ insn) ?missing
             @ [''  '' @ show_nat (length ?missing) @ '' instruction(s) not found.''], 1)"
    by (simp add: verify_instructions_def verify_instructions_for_eq)
  have present: "?missing = [] \<longrightarrow>
        verify_instructions dump =
          ([''Checking RV32I instruction coverage...'',
            ''  All RV32I instructions present in dump.''], 0)"
    by (simp add: verify_instructions_def verify_instructions_for_eq)
  from ex status set dist absent present show ?thesis
    by (simp only: simp_thms)
qed

theorem coverage_check_exit_status_witness:
  "verify_instructions [''slli a0, a1, 3''] =
     ([''Checking RV32I instruction coverage...'', ''  MISSING: lb'', ''  MISSING: lh'',
      ''  MISSING: lw'', ''  MISSING: lbu'', ''  MISSING: lhu'', ''  MISSING: sb'',
      ''  MISSING: sh'', ''  MISSING: sw'', ''  MISSING: add'', ''  MISSING: addi'',
      ''  MISSING: sub'', ''  MISSING: and'', ''  MISSING: andi'', ''  MISSING: or'',
      ''  MISSING: ori'', ''  MISSING: xor'', ''  MISSING: xori'', ''  MISSING: sll'',
      ''  MISSING: srl'', ''  MISSING: srli'', ''  MISSING: sra'', ''  MISSING: srai'',
      ''  MISSING: slt'', ''  MISSING: slti'', ''  MISSING: sltu'',
      ''  MISSING: sltiu'', ''  MISSING: lui'', ''  MISSING: auipc'',
      ''  MISSING: jal'', ''  MISSING: jalr'', ''  MISSING: beq'', ''  MISSING: bne'',
      ''  MISSING: blt'', ''  MISSING: bge'', ''  MISSING: bltu'', ''  MISSING: bgeu'',
      ''  36 instruction(s) not found.''], 1)
   \<and> missing_mnemonics rv32i_insns [''slli a0, a1, 3''] =
     [''lb'', ''lh'', ''lw'', ''lbu'', ''lhu'', ''sb'', ''sh'', ''sw'', ''add'',
      ''addi'', ''sub'', ''and'', ''andi'', ''or'', ''ori'', ''xor'', ''xori'', ''sll'',
      ''srl'', ''srli'', ''sra'', ''srai'', ''slt'', ''slti'', ''sltu'', ''sltiu'',
      ''lui'', ''auipc'', ''jal'', ''jalr'', ''beq'', ''bne'', ''blt'', ''bge'',
      ''bltu'', ''bgeu'']
   \<and> verify_instructions rv32i_insns =
     ([''Checking RV32I instruction coverage...'',
       ''  All RV32I instructions present in dump.''], 0)"
proof -
  let ?dump = "[''slli a0, a1, 3'']"
  have m: "missing_mnemonics rv32i_insns ?dump =
     [''lb'', ''lh'', ''lw'', ''lbu'', ''lhu'', ''sb'', ''sh'', ''sw'', ''add'',
      ''addi'', ''sub'', ''and'', ''andi'', ''or'', ''ori'', ''xor'', ''xori'', ''sll'',
      ''srl'', ''srli'', ''sra'', ''srai'', ''slt'', ''slti'', ''sltu'', ''sltiu'',
      ''lui'', ''auipc'', ''jal'', ''jalr'', ''beq'', ''bne'', ''blt'', ''bge'',
      ''bltu'', ''bgeu'']"
    by (simp add: missing_mnemonics_def rv32i_insns_def grep_eval)
  have n: "length (missing_mnemonics rv32i_insns ?dump) = 36"
    unfolding m by simp
  have "missing_mnemonics rv32i_insns ?dump \<noteq> []"
    unfolding m by simp
  then have "verify_instructions ?dump =
          (''Checking RV32I instruction coverage...''
             # map (\<lambda>insn. ''  MISSING: '' @ insn) (missing_mnemonics rv32i_insns ?dump)
             @ [''  '' @ show_nat (length (missing_mnemonics rv32i_insns ?dump))
                @ '' instruction(s) not found.''], 1)"
    using coverage_check_exit_status [of ?dump] by blast
  then have v: "verify_instructions ?dump =
     ([''Checking RV32I instruction coverage...'', ''  MISSING: lb'', ''  MISSING: lh'',
      ''  MISSING: lw'', ''  MISSING: lbu'', ''  MISSING: lhu'', ''  MISSING: sb'',
      ''  MISSING: sh'', ''  MISSING: sw'', ''  MISSING: add'', ''  MISSING: addi'',
      ''  MISSING: sub'', ''  MISSING: and'', ''  MISSING: andi'', ''  MISSING: or'',
      ''  MISSING: ori'', ''  MISSING: xor'', ''  MISSING: xori'', ''  MISSING: sll'',
      ''  MISSING: srl'', ''  MISSING: srli'', ''  MISSING: sra'', ''  MISSING: srai'',
      ''  MISSING: slt'', ''  MISSING: slti'', ''  MISSING: sltu'',
      ''  MISSING: sltiu'', ''  MISSING: lui'', ''  MISSING: auipc'',
      ''  MISSING: jal'', ''  MISSING: jalr'', ''  MISSING: beq'', ''  MISSING: bne'',
      ''  MISSING: blt'', ''  MISSING: bge'', ''  MISSING: bltu'', ''  MISSING: bgeu'',
      ''  36 instruction(s) not found.''], 1)"
    unfolding n show_nat_examples unfolding m by simp
  have p: "verify_instructions rv32i_insns =
     ([''Checking RV32I instruction coverage...'',
       ''  All RV32I instructions present in dump.''], 0)"
    using coverage_check_exit_status [of rv32i_insns] own_lines_all_present by blast
  from v m p show ?thesis
    by (intro conjI)
qed

lemma rv32i_grep_iff:
  assumes "insn \<in> set rv32i_insns"
  shows "grep_qE insn dump \<longleftrightarrow> (\<exists>line \<in> set dump. standalone_token_on insn line)"
proof -
  from assms word_rv32i_insns have "insn \<noteq> []" "list_all is_word_char insn"
    by (auto simp: list_all_iff)
  then show ?thesis
    by (intro grep_qE_word word_ends)
qed

lemma missing_rv32i_iff:
  "insn \<in> set (missing_mnemonics rv32i_insns dump)
     \<longleftrightarrow> insn \<in> set rv32i_insns \<and> \<not> (\<exists>line \<in> set dump. standalone_token_on insn line)"
  using rv32i_grep_iff [of insn dump] by (auto simp: missing_mnemonics_def)

lemma missing_rv32i_empty_iff:
  "missing_mnemonics rv32i_insns dump = []
     \<longleftrightarrow> (\<forall>insn \<in> set rv32i_insns. \<exists>line \<in> set dump. standalone_token_on insn line)"
proof -
  have "missing_mnemonics rv32i_insns dump = []
      \<longleftrightarrow> (\<forall>insn. insn \<notin> set (missing_mnemonics rv32i_insns dump))"
    by (cases "missing_mnemonics rv32i_insns dump") auto
  then show ?thesis
    unfolding missing_rv32i_iff by blast
qed

lemma show_nat_hd: "show_nat n \<noteq> [] \<and> hd (show_nat n) \<in> set ''0123456789''"
proof (induction n rule: show_nat.induct)
  case (1 n)
  show ?case
  proof (cases "n < 10")
    case True
    then have "show_nat n = [''0123456789'' ! n]"
      by (simp add: show_nat.simps)
    moreover from True have "''0123456789'' ! n \<in> set ''0123456789''"
      by (intro nth_mem) simp
    ultimately show ?thesis
      by simp
  next
    case False
    then have "show_nat n = show_nat (n div 10) @ [''0123456789'' ! (n mod 10)]"
      by (subst show_nat.simps) simp
    with 1 [OF False] show ?thesis
      by simp
  qed
qed

lemma show_nat_not_M: "CHR ''M'' # xs \<noteq> show_nat n @ ys"
proof
  assume e: "CHR ''M'' # xs = show_nat n @ ys"
  from show_nat_hd [of n] obtain d ds where s: "show_nat n = d # ds"
    and d: "d \<in> set ''0123456789''"
    by (cases "show_nat n") auto
  from e s have "d = CHR ''M''"
    by simp
  with d show False
    by simp
qed

lemma MISSING_line_in_report:
  "''  MISSING: '' @ insn \<in> set (fst (verify_instructions_for required dump))
     \<longleftrightarrow> insn \<in> set (missing_mnemonics required dump)"
  unfolding verify_instructions_for_eq
  by (auto simp: show_nat_not_M)

lemma own_lines_without_system_instructions:
  "\<not> grep_qE ''ecall'' rv32i_insns"
  "\<not> grep_qE ''ebreak'' rv32i_insns"
  "\<not> grep_qE ''fence'' rv32i_insns"
  by (simp_all add: rv32i_insns_def grep_eval)

lemma sub_in_list: "''sub'' \<in> set rv32i_insns" and sll_in_list: "''sll'' \<in> set rv32i_insns"
  by (simp_all add: rv32i_insns_def)

lemma no_sub_without_its_line: "\<not> grep_qE ''sub'' (remove1 ''sub'' rv32i_insns)"
  by (simp add: rv32i_insns_def grep_eval)

text \<open>
  Claim C10. The word list of the recipe is the following list of 37 distinct
  mnemonics, in this order; \<open>ecall\<close>, \<open>ebreak\<close> and \<open>fence\<close> are not in it. The check
  requires exactly these 37: it passes (status 0) if and only if each of them occurs as
  a standalone token on some line of the listing; a listing that lacks any one of them
  fails with status 1 and a \<open>MISSING\<close> line for it; a \<open>MISSING\<close> line is printed only for
  one of the 37 that is absent; and two listings that agree on the presence of the 37
  give the same result, whatever else they hold or lack.
\<close>

theorem required_mnemonic_set:
  "rv32i_insns =
     [''lb'', ''lh'', ''lw'', ''lbu'', ''lhu'', ''sb'', ''sh'', ''sw'', ''add'', ''addi'',
      ''sub'', ''and'', ''andi'', ''or'', ''ori'', ''xor'', ''xori'', ''sll'', ''slli'',
      ''srl'', ''srli'', ''sra'', ''srai'', ''slt'', ''slti'', ''sltu'', ''sltiu'', ''lui'',
      ''auipc'', ''jal'', ''jalr'', ''beq'', ''bne'', ''blt'', ''bge'', ''bltu'', ''bgeu'']
   \<and> length rv32i_insns = 37
   \<and> distinct rv32i_insns
   \<and> ''ecall'' \<notin> set rv32i_insns
   \<and> ''ebreak'' \<notin> set rv32i_insns
   \<and> ''fence'' \<notin> set rv32i_insns
   \<and> verify_instructions dump = verify_instructions_for rv32i_insns dump
   \<and> ((\<forall>insn \<in> set rv32i_insns. \<exists>line \<in> set dump. standalone_token_on insn line) \<longrightarrow>
        verify_instructions dump =
          ([''Checking RV32I instruction coverage...'',
            ''  All RV32I instructions present in dump.''], 0))
   \<and> (snd (verify_instructions dump) = 0)
       = (\<forall>insn \<in> set rv32i_insns. \<exists>line \<in> set dump. standalone_token_on insn line)
   \<and> (insn \<in> set rv32i_insns \<and> \<not> (\<exists>line \<in> set dump. standalone_token_on insn line) \<longrightarrow>
        snd (verify_instructions dump) = 1
        \<and> ''  MISSING: '' @ insn \<in> set (fst (verify_instructions dump)))
   \<and> (''  MISSING: '' @ insn \<in> set (fst (verify_instructions dump)) \<longrightarrow>
        insn \<in> set rv32i_insns \<and> \<not> (\<exists>line \<in> set dump. standalone_token_on insn line))
   \<and> ((\<forall>insn \<in> set rv32i_insns.
          (\<exists>line \<in> set dump. standalone_token_on insn line)
            = (\<exists>line \<in> set dump'. standalone_token_on insn line)) \<longrightarrow>
        verify_instructions dump = verify_instructions dump')"
proof -
  let ?missing = "missing_mnemonics rv32i_insns dump"
  let ?all = "\<forall>insn \<in> set rv32i_insns. \<exists>line \<in> set dump. standalone_token_on insn line"
  have out: "verify_instructions dump =
     (''Checking RV32I instruction coverage...''
        # map (\<lambda>insn. ''  MISSING: '' @ insn) ?missing
        @ [if ?missing = []
           then ''  All RV32I instructions present in dump.''
           else ''  '' @ show_nat (length ?missing) @ '' instruction(s) not found.''],
      if ?missing = [] then 0 else 1)"
    by (simp only: verify_instructions_def verify_instructions_for_eq)
  have pass: "?all \<longrightarrow> verify_instructions dump =
          ([''Checking RV32I instruction coverage...'',
            ''  All RV32I instructions present in dump.''], 0)"
    unfolding out by (simp add: missing_rv32i_empty_iff)
  have iff: "(snd (verify_instructions dump) = 0) = ?all"
    unfolding out by (simp add: missing_rv32i_empty_iff)
  have fail: "insn \<in> set rv32i_insns \<and> \<not> (\<exists>line \<in> set dump. standalone_token_on insn line) \<longrightarrow>
        snd (verify_instructions dump) = 1
        \<and> ''  MISSING: '' @ insn \<in> set (fst (verify_instructions dump))"
  proof
    assume "insn \<in> set rv32i_insns \<and> \<not> (\<exists>line \<in> set dump. standalone_token_on insn line)"
    then have m: "insn \<in> set ?missing"
      by (simp add: missing_rv32i_iff)
    then have "?missing \<noteq> []"
      by auto
    with m show "snd (verify_instructions dump) = 1
        \<and> ''  MISSING: '' @ insn \<in> set (fst (verify_instructions dump))"
      unfolding out by simp
  qed
  have only: "''  MISSING: '' @ insn \<in> set (fst (verify_instructions dump)) \<longrightarrow>
        insn \<in> set rv32i_insns \<and> \<not> (\<exists>line \<in> set dump. standalone_token_on insn line)"
    by (simp only: verify_instructions_def MISSING_line_in_report missing_rv32i_iff) simp
  have depends: "(\<forall>insn \<in> set rv32i_insns.
          (\<exists>line \<in> set dump. standalone_token_on insn line)
            = (\<exists>line \<in> set dump'. standalone_token_on insn line)) \<longrightarrow>
        verify_instructions dump = verify_instructions dump'"
  proof
    assume same: "\<forall>insn \<in> set rv32i_insns.
          (\<exists>line \<in> set dump. standalone_token_on insn line)
            = (\<exists>line \<in> set dump'. standalone_token_on insn line)"
    have "missing_mnemonics rv32i_insns dump = missing_mnemonics rv32i_insns dump'"
      unfolding missing_mnemonics_def
      by (rule filter_cong) (use same rv32i_grep_iff in auto)
    then show "verify_instructions dump = verify_instructions dump'"
      by (simp only: verify_instructions_def verify_instructions_for_eq)
  qed
  have len: "length rv32i_insns = 37"
    and sys: "''ecall'' \<notin> set rv32i_insns" "''ebreak'' \<notin> set rv32i_insns"
      "''fence'' \<notin> set rv32i_insns"
    by (simp_all add: rv32i_insns_def)
  note rv32i_insns_def verify_instructions_def
  with len distinct_rv32i_insns sys pass iff fail only depends show ?thesis
    by (intro conjI)
qed

theorem required_mnemonic_set_witness:
  "list_all (\<lambda>insn. list_ex (standalone_token_on insn) rv32i_insns) rv32i_insns
   \<and> \<not> grep_qE ''ecall'' rv32i_insns
   \<and> \<not> grep_qE ''ebreak'' rv32i_insns
   \<and> \<not> grep_qE ''fence'' rv32i_insns
   \<and> snd (verify_instructions rv32i_insns) = 0
   \<and> fst (verify_instructions rv32i_insns) =
        [''Checking RV32I instruction coverage...'',
         ''  All RV32I instructions present in dump.'']
   \<and> ''sub'' \<in> set rv32i_insns
   \<and> \<not> list_ex (standalone_token_on ''sub'') (remove1 ''sub'' rv32i_insns)
   \<and> snd (verify_instructions (remove1 ''sub'' rv32i_insns)) = 1
   \<and> ''  MISSING: sub'' \<in> set (fst (verify_instructions (remove1 ''sub'' rv32i_insns)))
   \<and> ''  MISSING: ecall'' \<notin> set (fst (verify_instructions (remove1 ''sub'' rv32i_insns)))"
proof -
  let ?less = "remove1 ''sub'' rv32i_insns"
  have tokens: "\<forall>insn \<in> set rv32i_insns. \<exists>line \<in> set rv32i_insns. standalone_token_on insn line"
    using standalone_token_on_self by blast
  from required_mnemonic_set [of rv32i_insns "''sub''" rv32i_insns]
  have "(\<forall>insn \<in> set rv32i_insns. \<exists>line \<in> set rv32i_insns. standalone_token_on insn line) \<longrightarrow>
        verify_instructions rv32i_insns =
          ([''Checking RV32I instruction coverage...'',
            ''  All RV32I instructions present in dump.''], 0)"
    by (elim conjE)
  with tokens have pass: "verify_instructions rv32i_insns =
          ([''Checking RV32I instruction coverage...'',
            ''  All RV32I instructions present in dump.''], 0)"
    by (rule rev_mp)
  have absent: "\<not> (\<exists>line \<in> set ?less. standalone_token_on ''sub'' line)"
    using no_sub_without_its_line rv32i_grep_iff [OF sub_in_list, of ?less] by simp
  from required_mnemonic_set [of ?less "''sub''" rv32i_insns]
  have "''sub'' \<in> set rv32i_insns
      \<and> \<not> (\<exists>line \<in> set ?less. standalone_token_on ''sub'' line) \<longrightarrow>
        snd (verify_instructions ?less) = 1
        \<and> ''  MISSING: '' @ ''sub'' \<in> set (fst (verify_instructions ?less))"
    by (elim conjE)
  with sub_in_list absent have fail: "snd (verify_instructions ?less) = 1"
    and line: "''  MISSING: '' @ ''sub'' \<in> set (fst (verify_instructions ?less))"
    by blast+
  from required_mnemonic_set [of ?less "''ecall''" rv32i_insns]
  have no_ecall: "''ecall'' \<notin> set rv32i_insns"
    by (elim conjE)
  from required_mnemonic_set [of ?less "''ecall''" rv32i_insns]
  have "''  MISSING: '' @ ''ecall'' \<in> set (fst (verify_instructions ?less)) \<longrightarrow>
        ''ecall'' \<in> set rv32i_insns
        \<and> \<not> (\<exists>line \<in> set ?less. standalone_token_on ''ecall'' line)"
    by (elim conjE)
  with no_ecall have never: "''  MISSING: '' @ ''ecall'' \<notin> set (fst (verify_instructions ?less))"
    by blast
  from tokens have t: "list_all (\<lambda>insn. list_ex (standalone_token_on insn) rv32i_insns) rv32i_insns"
    by (simp add: list_all_iff list_ex_iff)
  from absent have a: "\<not> list_ex (standalone_token_on ''sub'') ?less"
    by (simp add: list_ex_iff)
  from line have line': "''  MISSING: sub'' \<in> set (fst (verify_instructions ?less))"
    by simp
  from never have never': "''  MISSING: ecall'' \<notin> set (fst (verify_instructions ?less))"
    by simp
  from t own_lines_without_system_instructions pass sub_in_list a fail line' never'
  show ?thesis
    by simp
qed

section \<open>Properties of the build configuration\<close>

lemma find_candidate_on_path:
  "find (\<lambda>prefix. command_v h (prefix @ ''gcc'')) candidate_prefixes =
     (if command_v h ''riscv64-unknown-elf-gcc'' then Some ''riscv64-unknown-elf-''
      else if command_v h ''riscv32-unknown-elf-gcc'' then Some ''riscv32-unknown-elf-''
      else if command_v h ''riscv64-linux-gnu-gcc'' then Some ''riscv64-linux-gnu-''
      else if command_v h ''riscv32-linux-gnu-gcc'' then Some ''riscv32-linux-gnu-''
      else None)"
  by (simp add: candidate_prefixes_def)

lemma detect_toolchain_eq:
  "detect_toolchain h =
     (case find (\<lambda>prefix. command_v h (prefix @ ''gcc'')) candidate_prefixes of
        Some prefix \<Rightarrow> prefix
      | None \<Rightarrow> ''riscv64-unknown-elf-'')"
  by (simp add: find_candidate_on_path detect_toolchain_def)

text \<open>
  Claim C7, as the code has it. (1) A prefix given by the caller is used as it is.
  (2) Otherwise the first of the four candidate prefixes, in their order, whose compiler
  is on the search path is used. (3) Otherwise the two installation directories are
  probed for \<open>riscv64-unknown-elf-gcc\<close> only, and a hit there gives the bare prefix
  \<open>riscv64-unknown-elf-\<close>, which is also (4) the fallback: the result of detection does
  not depend on what the directory probes find, and detection never fails. Whenever a
  prefix is given or a candidate is on the search path, this is the policy of the
  specification.
\<close>

theorem toolchain_detection_order:
  "TOOLCHAIN_PREFIX (Some prefix) h = prefix
   \<and> TOOLCHAIN_PREFIX None h =
       (case find (\<lambda>prefix. command_v h (prefix @ ''gcc'')) candidate_prefixes of
          Some prefix \<Rightarrow> prefix
        | None \<Rightarrow> ''riscv64-unknown-elf-'')
   \<and> (find (\<lambda>prefix. command_v h (prefix @ ''gcc'')) candidate_prefixes = None \<longrightarrow>
        TOOLCHAIN_PREFIX None h = ''riscv64-unknown-elf-'')
   \<and> TOOLCHAIN_PREFIX None (h\<lparr>test_f := probes\<rparr>) = TOOLCHAIN_PREFIX None h
   \<and> (given \<noteq> None \<or> find (\<lambda>prefix. command_v h (prefix @ ''gcc'')) candidate_prefixes \<noteq> None
        \<longrightarrow> TOOLCHAIN_PREFIX given h = claimed_toolchain_policy given h)"
proof -
  have found: "TOOLCHAIN_PREFIX None h =
       (case find (\<lambda>prefix. command_v h (prefix @ ''gcc'')) candidate_prefixes of
          Some prefix \<Rightarrow> prefix
        | None \<Rightarrow> ''riscv64-unknown-elf-'')"
    by (simp add: TOOLCHAIN_PREFIX_def detect_toolchain_eq)
  have probes: "TOOLCHAIN_PREFIX None (h\<lparr>test_f := probes\<rparr>) = TOOLCHAIN_PREFIX None h"
    by (simp add: TOOLCHAIN_PREFIX_def detect_toolchain_eq)
  have agree: "given \<noteq> None \<or> find (\<lambda>prefix. command_v h (prefix @ ''gcc'')) candidate_prefixes \<noteq> None
        \<longrightarrow> TOOLCHAIN_PREFIX given h = claimed_toolchain_policy given h"
    by (auto simp: TOOLCHAIN_PREFIX_def claimed_toolchain_policy_def detect_toolchain_eq
        split: option.splits)
  have given: "TOOLCHAIN_PREFIX (Some prefix) h = prefix"
    by (simp add: TOOLCHAIN_PREFIX_def)
  have fallback: "find (\<lambda>prefix. command_v h (prefix @ ''gcc'')) candidate_prefixes = None \<longrightarrow>
        TOOLCHAIN_PREFIX None h = ''riscv64-unknown-elf-''"
    by (simp add: found)
  from given found fallback probes agree show ?thesis
    by (intro conjI)
qed

theorem toolchain_detection_order_witness:
  "find (\<lambda>prefix. command_v path_rv32_host (prefix @ ''gcc'')) candidate_prefixes
     = Some ''riscv32-unknown-elf-''
   \<and> TOOLCHAIN_PREFIX None path_rv32_host = ''riscv32-unknown-elf-''
   \<and> claimed_toolchain_policy None path_rv32_host = ''riscv32-unknown-elf-''
   \<and> TOOLCHAIN_PREFIX (Some ''/opt/riscv/bin/riscv-none-elf-'') path_rv32_host
       = ''/opt/riscv/bin/riscv-none-elf-''
   \<and> find (\<lambda>prefix. command_v homebrew_rv32_host (prefix @ ''gcc'')) candidate_prefixes = None
   \<and> TOOLCHAIN_PREFIX None homebrew_rv32_host = ''riscv64-unknown-elf-''"
proof -
  have f1: "find (\<lambda>prefix. command_v path_rv32_host (prefix @ ''gcc'')) candidate_prefixes
     = Some ''riscv32-unknown-elf-''"
    unfolding find_candidate_on_path by (simp add: path_rv32_host_def)
  have f2: "find (\<lambda>prefix. command_v homebrew_rv32_host (prefix @ ''gcc'')) candidate_prefixes
     = None"
    unfolding find_candidate_on_path by (simp add: homebrew_rv32_host_def)
  show ?thesis
    using toolchain_detection_order
        [of "''/opt/riscv/bin/riscv-none-elf-''" path_rv32_host "\<lambda>path. False" None]
      toolchain_detection_order
        [of "''/opt/riscv/bin/riscv-none-elf-''" homebrew_rv32_host "\<lambda>path. False" None]
    by (auto simp: f1 f2)
qed

text \<open>
  The claim as stated fails where a candidate other than \<open>riscv64-unknown-elf-gcc\<close> is
  found only in an installation directory: the policy of the specification takes its
  prefix,
  the \<^verbatim>\<open>Makefile\<close> does not look for it there and falls back.
\<close>

theorem toolchain_detection_order_counterexample:
  "TOOLCHAIN_PREFIX None homebrew_rv32_host = ''riscv64-unknown-elf-''
   \<and> claimed_toolchain_policy None homebrew_rv32_host = ''riscv32-unknown-elf-''
   \<and> TOOLCHAIN_PREFIX None homebrew_rv32_host \<noteq> claimed_toolchain_policy None homebrew_rv32_host"
  by (simp add: TOOLCHAIN_PREFIX_def detect_toolchain_def claimed_toolchain_policy_def
      homebrew_rv32_host_def candidate_prefixes_def install_dirs_def)

text \<open>
  Claim C8. For every base architecture string and every extension string, \<open>FULL_ARCH\<close>
  is the base string followed by the extension string, character for character: nothing
  is removed, reordered or checked. With no extensions it is the base string.
\<close>

theorem full_arch_is_concatenation:
  "FULL_ARCH ARCH ISA_EXTENSIONS = ARCH @ ISA_EXTENSIONS \<and> FULL_ARCH ARCH [] = ARCH"
  by (simp add: FULL_ARCH_def)

theorem full_arch_is_concatenation_witness:
  "FULL_ARCH ''rv32i'' ''mac'' = ''rv32imac''
   \<and> FULL_ARCH ''rv32i'' ''mm'' = ''rv32imm''
   \<and> FULL_ARCH ''rv32i'' ''cm'' = ''rv32icm''
   \<and> FULL_ARCH ''rv32i'' ''?!'' = ''rv32i?!''
   \<and> FULL_ARCH ''rv32i'' [] = ''rv32i''"
  using full_arch_is_concatenation [of "''rv32i''" "''mac''"]
    full_arch_is_concatenation [of "''rv32i''" "''mm''"]
    full_arch_is_concatenation [of "''rv32i''" "''cm''"]
    full_arch_is_concatenation [of "''rv32i''" "''?!''"]
  by simp

end
